theory Spec2Isabelle
  imports
    Complex_Main
    "HOL-Library.List_Lexorder"
    "HOL-Library.Product_Lexorder"
    "HOL-Library.AList"
begin

section \<open>Python strings\<close>

text \<open>
  A Python \<^verbatim>\<open>str\<close> is a sequence of Unicode code points; it is modelled as a list of
  natural numbers, so that \<^verbatim>\<open>len\<close> counts code points and the comparisons
  \<^verbatim>\<open>'\u0370' <= c <= '\u03FF'\<close> are comparisons of numbers. \<open>py\<close> turns an ASCII literal
  of the source into such a list.
\<close>

type_synonym pystr = "nat list"

definition py :: "string \<Rightarrow> pystr" where
  "py s = map of_char s"

text \<open>
  The characters \<^verbatim>\<open>str.strip()\<close> removes (those for which \<^verbatim>\<open>str.isspace\<close> holds):
  U+0009..000D, U+001C..0020, U+0085, U+00A0, U+1680, U+2000..200A, U+2028, U+2029,
  U+202F, U+205F, U+3000.
\<close>

definition is_space :: "nat \<Rightarrow> bool" where
  "is_space c \<longleftrightarrow>
     (9 \<le> c \<and> c \<le> 13) \<or> (28 \<le> c \<and> c \<le> 32) \<or> c = 133 \<or> c = 160 \<or> c = 5760 \<or>
     (8192 \<le> c \<and> c \<le> 8202) \<or> c = 8232 \<or> c = 8233 \<or> c = 8239 \<or> c = 8287 \<or> c = 12288"

definition strip :: "pystr \<Rightarrow> pystr" where
  "strip s = rev (dropWhile is_space (rev (dropWhile is_space s)))"

text \<open>\<^verbatim>\<open>s.split(sep)\<close> for a one-character separator: never the empty list.\<close>

fun split_on :: "nat \<Rightarrow> pystr \<Rightarrow> pystr list" where
  "split_on sep [] = [[]]"
| "split_on sep (c # cs) =
     (if c = sep then [] # split_on sep cs
      else (case split_on sep cs of
              [] \<Rightarrow> [[c]]
            | l # ls \<Rightarrow> (c # l) # ls))"

text \<open>\<^verbatim>\<open>sep.join(xs)\<close> for a one-character separator.\<close>

fun join :: "nat \<Rightarrow> pystr list \<Rightarrow> pystr" where
  "join sep [] = []"
| "join sep [x] = x"
| "join sep (x # y # ys) = x @ sep # join sep (y # ys)"

abbreviation newline :: nat where
  "newline \<equiv> 10"

text \<open>The test \<^verbatim>\<open>'\u0370' <= c <= '\u03FF' or '\u1F00' <= c <= '\u1FFF'\<close>.\<close>

definition is_greek :: "nat \<Rightarrow> bool" where
  "is_greek c \<longleftrightarrow> (880 \<le> c \<and> c \<le> 1023) \<or> (7936 \<le> c \<and> c \<le> 8191)"

section \<open>The fragment of \<^verbatim>\<open>re\<close> the scripts use\<close>

text \<open>
  The patterns of the source are sequences of one-character classes, some under \<^verbatim>\<open>+\<close> or
  \<^verbatim>\<open>*\<close>. The class \<^verbatim>\<open>\d\<close> of a \<^verbatim>\<open>str\<close> pattern is the Unicode decimal digits, a table of
  the Python runtime: it is the parameter \<open>isd\<close> of the matcher.

  \<open>LitI\<close> is a literal under \<^verbatim>\<open>re.IGNORECASE\<close>. For an ASCII letter CPython accepts both
  cases of the letter and the code points whose simple lower case is the letter or that
  its table of equivalences joins to it: U+0130 and U+0131 for \<^verbatim>\<open>i\<close>, U+212A for \<^verbatim>\<open>k\<close>,
  U+017F for \<^verbatim>\<open>s\<close>. Any other ASCII character matches itself only.
\<close>

datatype cls = Lit nat | LitI nat | Digit | NotLit nat

datatype atom = One cls | Plus cls | Star cls

definition ascii_lower :: "nat \<Rightarrow> nat" where
  "ascii_lower c = (if 65 \<le> c \<and> c \<le> 90 then c + 32 else c)"

definition ci_variants :: "nat \<Rightarrow> nat list" where
  "ci_variants p =
     (let l = ascii_lower p in
      if 97 \<le> l \<and> l \<le> 122 then
        [l, l - 32] @
        (if l = 105 then [304, 305] else if l = 107 then [8490] else if l = 115 then [383] else [])
      else [p])"

fun cls_match :: "(nat \<Rightarrow> bool) \<Rightarrow> cls \<Rightarrow> nat \<Rightarrow> bool" where
  "cls_match isd (Lit p) c = (c = p)"
| "cls_match isd (LitI p) c = (c \<in> set (ci_variants p))"
| "cls_match isd Digit c = isd c"
| "cls_match isd (NotLit p) c = (c \<noteq> p)"

text \<open>Does the pattern match a prefix of the text (\<^verbatim>\<open>re.match\<close>, as a truth value)?\<close>

fun match_here :: "(nat \<Rightarrow> bool) \<Rightarrow> atom list \<Rightarrow> pystr \<Rightarrow> bool" where
  "match_here isd [] s = True"
| "match_here isd (One k # ps) [] = False"
| "match_here isd (One k # ps) (c # cs) = (cls_match isd k c \<and> match_here isd ps cs)"
| "match_here isd (Plus k # ps) [] = False"
| "match_here isd (Plus k # ps) (c # cs) = (cls_match isd k c \<and> match_here isd (Star k # ps) cs)"
| "match_here isd (Star k # ps) [] = match_here isd ps []"
| "match_here isd (Star k # ps) (c # cs) =
     (match_here isd ps (c # cs) \<or> (cls_match isd k c \<and> match_here isd (Star k # ps) cs))"

text \<open>\<^verbatim>\<open>re.search\<close>: the leftmost position at which the pattern matches, if any.\<close>

fun re_find :: "(nat \<Rightarrow> bool) \<Rightarrow> atom list \<Rightarrow> pystr \<Rightarrow> nat option" where
  "re_find isd p [] = (if match_here isd p [] then Some 0 else None)"
| "re_find isd p (c # cs) =
     (if match_here isd p (c # cs) then Some 0
      else map_option Suc (re_find isd p cs))"

definition re_search :: "(nat \<Rightarrow> bool) \<Rightarrow> atom list \<Rightarrow> pystr \<Rightarrow> bool" where
  "re_search isd p s \<longleftrightarrow> re_find isd p s \<noteq> None"

definition lits :: "string \<Rightarrow> atom list" where
  "lits s = map (\<lambda>c. One (Lit (of_char c))) s"

definition litsI :: "string \<Rightarrow> atom list" where
  "litsI s = map (\<lambda>c. One (LitI (of_char c))) s"

section \<open>\<^verbatim>\<open>tlg_corrected_extractor.py\<close>: \<^verbatim>\<open>GreekTextFilter\<close>\<close>

text \<open>
  The twelve \<^verbatim>\<open>metadata_patterns\<close> of \<^verbatim>\<open>__init__\<close>, in the source's order; every one is
  searched with \<^verbatim>\<open>re.IGNORECASE\<close>.
\<close>

definition metadata_patterns :: "atom list list" where
  "metadata_patterns =
    [ litsI ''TLG '' @ [Plus Digit] @ litsI '' '' @ [Plus Digit] @ litsI '' ::'',
      litsI ''Source:'',
      litsI ''Citation:'',
      litsI ''Cf. et'',
      litsI ''Scholia:'',
      litsI ''Vitae:'',
      litsI ''('' @ [Star (NotLit 41)] @ litsI ''B.C.)'',
      litsI ''('' @ [Star (NotLit 41)] @ litsI ''A.D.)'',
      litsI ''Oxford:'',
      litsI ''Leipzig:'',
      litsI ''Teubner'',
      litsI ''Clarendon Press'' ]"

definition is_metadata :: "(nat \<Rightarrow> bool) \<Rightarrow> pystr \<Rightarrow> bool" where
  "is_metadata isd line = list_ex (\<lambda>p. re_search isd p line) metadata_patterns"

text \<open>
  \<^verbatim>\<open>greek_chars / total_chars\<close> is a quotient of two integers; it is modelled as the exact
  rational, which the thresholds 0.5 and 0.1 cannot tell from the rounded float for any
  line a machine can hold.
\<close>

definition line_greek_ratio :: "pystr \<Rightarrow> rat" where
  "line_greek_ratio line =
     (let greek_chars = length (filter is_greek line);
          total_chars = length line
      in if total_chars > 0 then of_nat greek_chars / of_nat total_chars else 0)"

text \<open>The body of the loop over the lines: the two lists are the loop's state.\<close>

definition filter_line :: "(nat \<Rightarrow> bool) \<Rightarrow> pystr list \<times> pystr list \<Rightarrow> pystr \<Rightarrow> pystr list \<times> pystr list" where
  "filter_line isd st raw =
     (case st of (greek_lines, metadata_lines) \<Rightarrow>
      let line = strip raw in
      if line = [] then (greek_lines, metadata_lines)
      else
        let md = is_metadata isd line in
        if line \<noteq> [] then
          if line_greek_ratio line > 1 / 2 \<and> \<not> md \<and> length line > 20
            then (greek_lines @ [line], metadata_lines)
          else if md \<or> line_greek_ratio line < 1 / 10
            then (greek_lines, metadata_lines @ [line])
          else (greek_lines @ [line], metadata_lines)
        else (greek_lines, metadata_lines))"

record filtered =
  greek_text :: pystr
  metadata :: pystr
  mixed_content :: pystr

definition separate_greek_from_metadata :: "(nat \<Rightarrow> bool) \<Rightarrow> pystr \<Rightarrow> filtered" where
  "separate_greek_from_metadata isd mixed_text =
     (case foldl (filter_line isd) ([], []) (split_on newline mixed_text) of
        (greek_lines, metadata_lines) \<Rightarrow>
          \<lparr> greek_text = join newline greek_lines,
            metadata = join newline metadata_lines,
            mixed_content = mixed_text \<rparr>)"

text \<open>
  Where a non-blank line ends up: in \<^verbatim>\<open>greek_lines\<close> when this holds, in
  \<^verbatim>\<open>metadata_lines\<close> otherwise (the three branches of the source, the first and the last
  joined).
\<close>

definition goes_greek :: "(nat \<Rightarrow> bool) \<Rightarrow> pystr \<Rightarrow> bool" where
  "goes_greek isd line \<longleftrightarrow>
     (line_greek_ratio line > 1 / 2 \<and> \<not> is_metadata isd line \<and> length line > 20) \<or>
     \<not> (is_metadata isd line \<or> line_greek_ratio line < 1 / 10)"

text \<open>The ASCII digits: the least that \<^verbatim>\<open>\d\<close> matches.\<close>

definition ascii_digit :: "nat \<Rightarrow> bool" where
  "ascii_digit c \<longleftrightarrow> 48 \<le> c \<and> c \<le> 57"

section \<open>\<^verbatim>\<open>tlg_reference_preservation.py\<close>: \<^verbatim>\<open>TLGReferenceParser\<close>\<close>

text \<open>The exceptions the modelled functions raise.\<close>

datatype py_error = ValueError | KeyError | ZeroDivisionError

text \<open>\<^verbatim>\<open>\d{n}\<close>.\<close>

definition digits :: "nat \<Rightarrow> atom list" where
  "digits n = replicate n (One Digit)"

text \<open>
  \<^verbatim>\<open>r'/TLG(\d{4})/\d{4}_(\d{3})\.htm'\<close> and \<^verbatim>\<open>r'/TLG(\d{4})/\d{4}%5F(\d{3})\.htm'\<close>, searched
  without flags.
\<close>

definition url_pattern_plain :: "atom list" where
  "url_pattern_plain =
     lits ''/TLG'' @ digits 4 @ lits ''/'' @ digits 4 @ lits ''_'' @ digits 3 @ lits ''.htm''"

definition url_pattern_encoded :: "atom list" where
  "url_pattern_encoded =
     lits ''/TLG'' @ digits 4 @ lits ''/'' @ digits 4 @ lits ''%5F'' @ digits 3 @ lits ''.htm''"

text \<open>
  Every atom of the two patterns consumes one character, so the groups of a match that
  starts at \<open>i\<close> sit at fixed offsets: group 1 is the four characters from \<open>i + 4\<close>,
  group 2 the three characters from \<open>i + 14\<close> (plain) or \<open>i + 16\<close> (encoded). The
  \<^verbatim>\<open>raise ValueError\<close> is the \<open>Inl\<close> result.
\<close>

definition parse_url_reference :: "(nat \<Rightarrow> bool) \<Rightarrow> pystr \<Rightarrow> py_error + pystr \<times> pystr" where
  "parse_url_reference isd u =
     (case re_find isd url_pattern_plain u of
        Some i \<Rightarrow> Inr (take 4 (drop (i + 4) u), take 3 (drop (i + 14) u))
      | None \<Rightarrow>
          (case re_find isd url_pattern_encoded u of
             Some i \<Rightarrow> Inr (take 4 (drop (i + 4) u), take 3 (drop (i + 16) u))
           | None \<Rightarrow> Inl ValueError))"

text \<open>
  The text from a match position on has the shape of the pattern, with \<open>a\<close> and \<open>w\<close> in
  the places of the two groups.
\<close>

definition url_shape :: "(nat \<Rightarrow> bool) \<Rightarrow> pystr \<Rightarrow> pystr \<Rightarrow> pystr \<Rightarrow> pystr \<Rightarrow> bool" where
  "url_shape isd sep t a w \<longleftrightarrow>
     (\<exists>d rest. t = py ''/TLG'' @ a @ py ''/'' @ d @ sep @ w @ py ''.htm'' @ rest \<and>
        length a = 4 \<and> (\<forall>c \<in> set a. isd c) \<and>
        length d = 4 \<and> (\<forall>c \<in> set d. isd c) \<and>
        length w = 3 \<and> (\<forall>c \<in> set w. isd c))"

text \<open>\<^verbatim>\<open>TLG_ABBREVIATIONS\<close> and \<^verbatim>\<open>WORK_MAPPINGS\<close>, as written in the module.\<close>

definition TLG_ABBREVIATIONS :: "(pystr \<times> pystr) list" where
  "TLG_ABBREVIATIONS =
    [ (py ''0012'', py ''Hom.''),
      (py ''0059'', py ''Pl.''),
      (py ''0086'', py ''Arist.''),
      (py ''0011'', py ''Soph.''),
      (py ''0006'', py ''Eur.''),
      (py ''0007'', py ''Aesch.''),
      (py ''0016'', py ''Hdt.''),
      (py ''0003'', py ''Th.''),
      (py ''0087'', py ''Dem.''),
      (py ''0014'', py ''Xen.''),
      (py ''0017'', py ''Isoc.''),
      (py ''0020'', py ''Lys.''),
      (py ''0028'', py ''Isae.''),
      (py ''0030'', py ''Lyc.''),
      (py ''0031'', py ''Hyp.''),
      (py ''0032'', py ''Din.''),
      (py ''0040'', py ''Andr.'') ]"

record work_info =
  title :: pystr
  abbrev :: pystr
  genre :: pystr

definition WORK_MAPPINGS :: "(pystr \<times> (pystr \<times> work_info) list) list" where
  "WORK_MAPPINGS =
    [ (py ''0012'',
        [ (py ''001'', \<lparr> title = py ''Iliad'', abbrev = py ''Il.'', genre = py ''Epic Poetry'' \<rparr>),
          (py ''002'', \<lparr> title = py ''Odyssey'', abbrev = py ''Od.'', genre = py ''Epic Poetry'' \<rparr>) ]),
      (py ''0059'',
        [ (py ''030'', \<lparr> title = py ''Republic'', abbrev = py ''R.'', genre = py ''Philosophy'' \<rparr>),
          (py ''003'', \<lparr> title = py ''Phaedo'', abbrev = py ''Phd.'', genre = py ''Philosophy'' \<rparr>),
          (py ''004'', \<lparr> title = py ''Meno'', abbrev = py ''Men.'', genre = py ''Philosophy'' \<rparr>),
          (py ''021'', \<lparr> title = py ''Apology'', abbrev = py ''Ap.'', genre = py ''Philosophy'' \<rparr>) ]),
      (py ''0086'',
        [ (py ''035'', \<lparr> title = py ''Metaphysics'', abbrev = py ''Metaph.'', genre = py ''Philosophy'' \<rparr>),
          (py ''087'', \<lparr> title = py ''Nicomachean Ethics'', abbrev = py ''EN'', genre = py ''Ethics'' \<rparr>),
          (py ''001'', \<lparr> title = py ''Categories'', abbrev = py ''Cat.'', genre = py ''Logic'' \<rparr>) ]) ]"

text \<open>\<^verbatim>\<open>self.abbreviations.get(author_id, f'TLG{author_id}')\<close>.\<close>

definition author_abbreviation :: "pystr \<Rightarrow> pystr" where
  "author_abbreviation aid =
     (case map_of TLG_ABBREVIATIONS aid of
        Some a \<Rightarrow> a
      | None \<Rightarrow> py ''TLG'' @ aid)"

text \<open>
  \<^verbatim>\<open>author_id in self.work_mappings and work_id in self.work_mappings[author_id]\<close>, with
  the entry found.
\<close>

definition work_mapping :: "pystr \<Rightarrow> pystr \<Rightarrow> work_info option" where
  "work_mapping aid wid =
     (case map_of WORK_MAPPINGS aid of
        None \<Rightarrow> None
      | Some ws \<Rightarrow> map_of ws wid)"

definition build_traditional_citation :: "pystr \<Rightarrow> pystr \<Rightarrow> pystr" where
  "build_traditional_citation aid wid =
     (let author_abbrev = author_abbreviation aid in
      case work_mapping aid wid of
        Some info \<Rightarrow> author_abbrev @ py '' '' @ abbrev info
      | None \<Rightarrow> author_abbrev @ py '' '' @ wid)"

record TLGReference =
  author_id :: pystr
  author_name :: pystr
  author_description :: pystr
  period :: pystr
  location :: pystr
  work_id :: pystr
  work_title :: pystr
  work_genre :: pystr
  url :: pystr
  traditional_citation :: pystr
  traditional_abbreviation :: pystr
  extraction_date :: pystr

text \<open>
  \<^verbatim>\<open>author_data\<close> and \<^verbatim>\<open>work_data\<close> are dictionaries of strings. \<^verbatim>\<open>d[k]\<close> raises
  \<^verbatim>\<open>KeyError\<close> on a missing key, \<^verbatim>\<open>d.get(k, default)\<close> does not. The lookups run in the
  order of the source; \<open>now\<close> stands for \<^verbatim>\<open>datetime.now().isoformat()\<close>.
\<close>

definition subscript :: "(pystr \<rightharpoonup> 'v) \<Rightarrow> pystr \<Rightarrow> py_error + 'v" where
  "subscript d k = (case d k of None \<Rightarrow> Inl KeyError | Some v \<Rightarrow> Inr v)"

definition get_default :: "(pystr \<rightharpoonup> 'v) \<Rightarrow> pystr \<Rightarrow> 'v \<Rightarrow> 'v" where
  "get_default d k dflt = (case d k of None \<Rightarrow> dflt | Some v \<Rightarrow> v)"

definition create_reference_from_discovery ::
    "pystr \<Rightarrow> (pystr \<rightharpoonup> pystr) \<Rightarrow> (pystr \<rightharpoonup> pystr) \<Rightarrow> py_error + TLGReference" where
  "create_reference_from_discovery now author_data work_data =
     (case subscript author_data (py ''tlg_id'') of Inl e \<Rightarrow> Inl e | Inr aid \<Rightarrow>
      case subscript work_data (py ''work_id'') of Inl e \<Rightarrow> Inl e | Inr wid \<Rightarrow>
      let citation = build_traditional_citation aid wid;
          title0 = get_default work_data (py ''title'') (py ''Work '' @ wid);
          genre0 = py ''Unknown'';
          (title1, genre1) =
            (case work_mapping aid wid of
               Some info \<Rightarrow> (title info, genre info)
             | None \<Rightarrow> (title0, genre0))
      in
      case subscript author_data (py ''name'') of Inl e \<Rightarrow> Inl e | Inr name \<Rightarrow>
      case subscript work_data (py ''url'') of Inl e \<Rightarrow> Inl e | Inr wurl \<Rightarrow>
      Inr \<lparr> author_id = aid,
            author_name = name,
            author_description = get_default author_data (py ''description'') [],
            period = get_default author_data (py ''period'') [],
            location = get_default author_data (py ''location'') [],
            work_id = wid,
            work_title = title1,
            work_genre = genre1,
            url = wurl,
            traditional_citation = citation,
            traditional_abbreviation = author_abbreviation aid,
            extraction_date = now \<rparr>)"

section \<open>\<^verbatim>\<open>tlg_reference_preservation.py\<close>: \<^verbatim>\<open>TLGValidationSystem\<close>\<close>

text \<open>The thresholds set in \<^verbatim>\<open>__init__\<close>.\<close>

definition min_greek_ratio :: rat where
  "min_greek_ratio = 2 / 10"

definition min_text_length :: nat where
  "min_text_length = 50"

text \<open>\<^verbatim>\<open>a / b\<close> on integers: \<^verbatim>\<open>ZeroDivisionError\<close> when \<open>b\<close> is zero.\<close>

definition true_div :: "nat \<Rightarrow> nat \<Rightarrow> py_error + rat" where
  "true_div a b = (if b = 0 then Inl ZeroDivisionError else Inr (of_nat a / of_nat b))"

text \<open>\<^verbatim>\<open>text.split()\<close>: the maximal runs of characters that are not white space.\<close>

fun words_from :: "pystr \<Rightarrow> pystr \<Rightarrow> pystr list" where
  "words_from cur [] = (if cur = [] then [] else [cur])"
| "words_from cur (c # cs) =
     (if is_space c then (if cur = [] then words_from [] cs else cur # words_from [] cs)
      else words_from (cur @ [c]) cs)"

definition split_words :: "pystr \<Rightarrow> pystr list" where
  "split_words s = words_from [] s"

text \<open>
  The dictionary \<^verbatim>\<open>validate_greek_content\<close> returns: the two early returns leave the
  three counts out.
\<close>

record text_validation =
  valid :: bool
  reason :: string
  length_chars :: nat
  word_count :: "nat option"
  greek_chars :: "nat option"
  total_alpha_chars :: "nat option"
  greek_ratio :: rat

text \<open>
  One round of the counting loop; the state is \<^verbatim>\<open>(greek_chars, total_alpha_chars)\<close>.
  \<^verbatim>\<open>str.isalpha\<close> is a table of the Python runtime: the parameter \<open>isalpha\<close>.
\<close>

definition count_char :: "(nat \<Rightarrow> bool) \<Rightarrow> nat \<times> nat \<Rightarrow> nat \<Rightarrow> nat \<times> nat" where
  "count_char isalpha st c =
     (case st of (g, t) \<Rightarrow>
        if isalpha c then (if is_greek c then (g + 1, t + 1) else (g, t + 1))
        else (g, t))"

definition validate_greek_content :: "(nat \<Rightarrow> bool) \<Rightarrow> pystr \<Rightarrow> py_error + text_validation" where
  "validate_greek_content isalpha text =
     (if text = [] \<or> length text < min_text_length then
        Inr \<lparr> valid = False, reason = ''Text too short'',
              length_chars = (if text \<noteq> [] then length text else 0),
              word_count = None, greek_chars = None, total_alpha_chars = None,
              greek_ratio = 0 \<rparr>
      else
        case foldl (count_char isalpha) (0, 0) text of (g, t) \<Rightarrow>
          if t = 0 then
            Inr \<lparr> valid = False, reason = ''No alphabetic characters'',
                  length_chars = length text,
                  word_count = None, greek_chars = None, total_alpha_chars = None,
                  greek_ratio = 0 \<rparr>
          else
            case true_div g t of
              Inl e \<Rightarrow> Inl e
            | Inr ratio \<Rightarrow>
                Inr \<lparr> valid = (ratio \<ge> min_greek_ratio),
                      reason = (if ratio \<ge> min_greek_ratio then ''Valid Greek text''
                                else ''Insufficient Greek content''),
                      length_chars = length text,
                      word_count = Some (length (split_words text)),
                      greek_chars = Some g,
                      total_alpha_chars = Some t,
                      greek_ratio = ratio \<rparr>)"

text \<open>
  \<^verbatim>\<open>required_reference_fields\<close>, each name with the attribute \<^verbatim>\<open>getattr\<close> reads.
\<close>

definition required_reference_fields :: "(string \<times> (TLGReference \<Rightarrow> pystr)) list" where
  "required_reference_fields =
    [ (''author_id'', author_id), (''work_id'', work_id), (''author_name'', author_name),
      (''work_title'', work_title), (''traditional_citation'', traditional_citation),
      (''url'', url) ]"

record reference_validation =
  valid_ref :: bool
  missing_fields :: "string list"
  completeness_score :: rat

text \<open>\<^verbatim>\<open>not value or (isinstance(value, str) and not value.strip())\<close> on a string.\<close>

definition blank :: "pystr \<Rightarrow> bool" where
  "blank v \<longleftrightarrow> v = [] \<or> strip v = []"

definition validate_reference_completeness :: "TLGReference \<Rightarrow> reference_validation" where
  "validate_reference_completeness reference =
     (let missing = map fst (filter (\<lambda>(name, field). blank (field reference)) required_reference_fields)
      in \<lparr> valid_ref = (length missing = 0),
           missing_fields = missing,
           completeness_score =
             (of_nat (length required_reference_fields) - of_nat (length missing))
               / of_nat (length required_reference_fields) \<rparr>)"

text \<open>
  Of a \<^verbatim>\<open>ValidatedExtraction\<close> the validator reads the reference and the raw text of the
  text structure only.
\<close>

record TextStructure =
  raw_text :: pystr

record ValidatedExtraction =
  tlg_reference :: TLGReference
  text_structure :: TextStructure

record extraction_validation =
  overall_valid :: bool
  text_validation :: text_validation
  reference_validation :: reference_validation
  validation_timestamp :: pystr

definition validate_extraction ::
    "(nat \<Rightarrow> bool) \<Rightarrow> pystr \<Rightarrow> ValidatedExtraction \<Rightarrow> py_error + extraction_validation" where
  "validate_extraction isalpha now extraction =
     (case validate_greek_content isalpha (raw_text (text_structure extraction)) of
        Inl e \<Rightarrow> Inl e
      | Inr tv \<Rightarrow>
          let rv = validate_reference_completeness (tlg_reference extraction) in
          Inr \<lparr> overall_valid = (valid tv \<and> valid_ref rv),
                text_validation = tv,
                reference_validation = rv,
                validation_timestamp = now \<rparr>)"

section \<open>Sample inputs\<close>

text \<open>
  A part of what \<^verbatim>\<open>str.isalpha\<close> accepts: the ASCII letters and the Greek small letters
  U+03B1..03C9.
\<close>

definition sample_isalpha :: "nat \<Rightarrow> bool" where
  "sample_isalpha c \<longleftrightarrow> (65 \<le> c \<and> c \<le> 90) \<or> (97 \<le> c \<and> c \<le> 122) \<or> (945 \<le> c \<and> c \<le> 969)"

definition sample_reference :: TLGReference where
  "sample_reference =
     \<lparr> author_id = py ''0012'', author_name = py ''HOMERUS'', author_description = py ''Epic.'',
       period = [], location = [], work_id = py ''001'', work_title = py ''Iliad'',
       work_genre = py ''Epic Poetry'', url = py ''http://h/TLG0012/0012_001.htm'',
       traditional_citation = py ''Hom. Il.'', traditional_abbreviation = py ''Hom.'',
       extraction_date = [] \<rparr>"

definition sample_extraction :: ValidatedExtraction where
  "sample_extraction =
     \<lparr> tlg_reference = sample_reference,
       text_structure = \<lparr> raw_text = replicate 50 945 \<rparr> \<rparr>"

definition nameless_extraction :: ValidatedExtraction where
  "nameless_extraction =
     \<lparr> tlg_reference = sample_reference \<lparr> author_name := [] \<rparr>,
       text_structure = \<lparr> raw_text = replicate 50 945 \<rparr> \<rparr>"

definition unknown_author :: "pystr \<rightharpoonup> pystr" where
  "unknown_author = [py ''tlg_id'' \<mapsto> py ''9999'', py ''name'' \<mapsto> py ''ANONYMUS'']"

definition first_work :: "pystr \<rightharpoonup> pystr" where
  "first_work = [py ''work_id'' \<mapsto> py ''001'', py ''url'' \<mapsto> py ''http://h/TLG9999/9999_001.htm'']"

section \<open>\<^verbatim>\<open>author_catalog_tools.py\<close>\<close>

text \<open>
  What \<^verbatim>\<open>json.loads\<close> returns. An object is the list of its items in insertion order;
  \<^verbatim>\<open>str(v)\<close> of a value that is not a string is left to the parameter \<open>repr\<close>.
\<close>

datatype json =
    JNull
  | JBool bool
  | JNum rat
  | JStr pystr
  | JArr "json list"
  | JObj "(pystr \<times> json) list"

type_synonym jdict = "(pystr \<times> json) list"

definition py_str :: "(json \<Rightarrow> pystr) \<Rightarrow> json \<Rightarrow> pystr" where
  "py_str repr v = (case v of JStr s \<Rightarrow> s | _ \<Rightarrow> repr v)"

text \<open>\<^verbatim>\<open>d.get(k, default)\<close>, \<^verbatim>\<open>k in d\<close> and \<^verbatim>\<open>d[k] = v\<close> on such a dictionary.\<close>

definition dict_get :: "('k \<times> 'v) list \<Rightarrow> 'k \<Rightarrow> 'v \<Rightarrow> 'v" where
  "dict_get d k dflt = (case map_of d k of None \<Rightarrow> dflt | Some v \<Rightarrow> v)"

definition dict_has :: "('k \<times> 'v) list \<Rightarrow> 'k \<Rightarrow> bool" where
  "dict_has d k \<longleftrightarrow> map_of d k \<noteq> None"

definition dict_set :: "('k \<times> 'v) list \<Rightarrow> 'k \<Rightarrow> 'v \<Rightarrow> ('k \<times> 'v) list" where
  "dict_set d k v = AList.update k v d"







text \<open>
  A catalogue maps an author ID to the author's metadata. Of that dictionary the
  \<^verbatim>\<open>"works"\<close> item, a dictionary of work dictionaries when present, is kept apart from
  the other items.
\<close>

record author_meta =
  other_items :: jdict
  works_item :: "(pystr \<times> jdict) list option"

type_synonym catalogue = "(pystr \<times> author_meta) list"

type_synonym work_key = "pystr \<times> pystr"

text \<open>
  \<^verbatim>\<open>_collect_works\<close>. \<open>languages\<close> is \<open>None\<close> or a set of codes, given as a list;
  \<^verbatim>\<open>str.lower\<close> is the parameter \<open>lower\<close>. The result dictionary is the state of the two
  nested loops.
\<close>

definition norm_languages :: "(pystr \<Rightarrow> pystr) \<Rightarrow> pystr list option \<Rightarrow> pystr list option" where
  "norm_languages lower languages =
     (case languages of
        None \<Rightarrow> None
      | Some ls \<Rightarrow> if ls = [] then None else Some (map lower ls))"

definition collect_work ::
    "(pystr \<Rightarrow> pystr) \<Rightarrow> (json \<Rightarrow> pystr) \<Rightarrow> pystr list option \<Rightarrow> pystr \<Rightarrow> author_meta \<Rightarrow>
     (work_key \<times> jdict) list \<Rightarrow> pystr \<times> jdict \<Rightarrow> (work_key \<times> jdict) list" where
  "collect_work lower repr norm_langs aid ameta acc item =
     (case item of (wid, work_meta) \<Rightarrow>
        let work_lang = lower (py_str repr (dict_get work_meta (py ''language'') (JStr []))) in
        if norm_langs \<noteq> None \<and> work_lang \<notin> set (the norm_langs) then acc
        else
          let key = (aid, wid);
              combined =
                [ (py ''author_id'', JStr aid),
                  (py ''work_id'', JStr wid),
                  (py ''author_name'', dict_get (other_items ameta) (py ''name'') (JStr [])),
                  (py ''work_title'', dict_get work_meta (py ''title'') (JStr [])) ]
          in dict_set acc key combined)"

definition collect_author ::
    "(pystr \<Rightarrow> pystr) \<Rightarrow> (json \<Rightarrow> pystr) \<Rightarrow> pystr list option \<Rightarrow>
     (work_key \<times> jdict) list \<Rightarrow> pystr \<times> author_meta \<Rightarrow> (work_key \<times> jdict) list" where
  "collect_author lower repr norm_langs acc item =
     (case item of (aid, ameta) \<Rightarrow>
        foldl (collect_work lower repr norm_langs aid ameta) acc
          (case works_item ameta of None \<Rightarrow> [] | Some ws \<Rightarrow> ws))"

definition collect_works ::
    "(pystr \<Rightarrow> pystr) \<Rightarrow> (json \<Rightarrow> pystr) \<Rightarrow> catalogue \<Rightarrow> pystr list option \<Rightarrow>
     (work_key \<times> jdict) list" where
  "collect_works lower repr cat languages =
     foldl (collect_author lower repr (norm_languages lower languages)) [] cat"

text \<open>\<^verbatim>\<open>{**a, **b}\<close>: the items of \<open>a\<close>, each item of \<open>b\<close> then stored over them.\<close>

definition dict_merge :: "('k \<times> 'v) list \<Rightarrow> ('k \<times> 'v) list \<Rightarrow> ('k \<times> 'v) list" where
  "dict_merge a b = foldl (\<lambda>d (k, v). dict_set d k v) a b"

definition dict_subscript :: "('k \<times> 'v) list \<Rightarrow> 'k \<Rightarrow> py_error + 'v" where
  "dict_subscript d k = (case map_of d k of None \<Rightarrow> Inl KeyError | Some v \<Rightarrow> Inr v)"

text \<open>One round of the loop over \<^verbatim>\<open>sorted(all_keys)\<close>: the row written for \<open>key\<close>.\<close>

definition coverage_row ::
    "(work_key \<times> jdict) list \<Rightarrow> (work_key \<times> jdict) list \<Rightarrow> work_key \<Rightarrow> py_error + json list" where
  "coverage_row legacy_works tlg_works key =
     (let in_legacy = dict_has legacy_works key;
          in_tlg = dict_has tlg_works key;
          (label, row_meta) =
            (if in_legacy \<and> in_tlg
               then (py ''bot'', dict_merge (dict_get legacy_works key []) (dict_get tlg_works key []))
             else if in_tlg then (py ''tlg'', dict_get tlg_works key [])
             else (py ''leg'', dict_get legacy_works key []))
      in
      case dict_subscript row_meta (py ''author_id'') of Inl e \<Rightarrow> Inl e | Inr c1 \<Rightarrow>
      case dict_subscript row_meta (py ''work_id'') of Inl e \<Rightarrow> Inl e | Inr c2 \<Rightarrow>
      case dict_subscript row_meta (py ''author_name'') of Inl e \<Rightarrow> Inl e | Inr c3 \<Rightarrow>
      case dict_subscript row_meta (py ''work_title'') of Inl e \<Rightarrow> Inl e | Inr c4 \<Rightarrow>
      Inr [c1, c2, c3, c4, JStr label])"

text \<open>The rows are written one after the other; an exception ends the writing.\<close>

fun write_rows ::
    "(work_key \<times> jdict) list \<Rightarrow> (work_key \<times> jdict) list \<Rightarrow> work_key list \<Rightarrow> py_error + json list list" where
  "write_rows legacy_works tlg_works [] = Inr []"
| "write_rows legacy_works tlg_works (key # keys) =
     (case coverage_row legacy_works tlg_works key of
        Inl e \<Rightarrow> Inl e
      | Inr row \<Rightarrow>
          (case write_rows legacy_works tlg_works keys of
             Inl e \<Rightarrow> Inl e
           | Inr rows \<Rightarrow> Inr (row # rows)))"

definition csv_header :: "json list" where
  "csv_header =
     [ JStr (py ''author_id''), JStr (py ''work_id''), JStr (py ''author_name''),
       JStr (py ''work_title''), JStr (py ''coverage'') ]"

text \<open>
  \<^verbatim>\<open>generate_coverage_csv\<close> on the two parsed catalogues: the rows handed to the CSV
  writer, the header first. \<open>languages\<close> is \<open>None\<close> or a sequence of codes.
\<close>

definition generate_coverage_csv ::
    "(pystr \<Rightarrow> pystr) \<Rightarrow> (json \<Rightarrow> pystr) \<Rightarrow> catalogue \<Rightarrow> catalogue \<Rightarrow> pystr list option \<Rightarrow>
     py_error + json list list" where
  "generate_coverage_csv lower repr legacy_catalog tlg_catalog languages =
     (let lang_set = norm_languages lower languages;
          legacy_works = collect_works lower repr legacy_catalog lang_set;
          tlg_works = collect_works lower repr tlg_catalog lang_set;
          all_keys = set (map fst legacy_works) \<union> set (map fst tlg_works)
      in
      case write_rows legacy_works tlg_works (sorted_list_of_set all_keys) of
        Inl e \<Rightarrow> Inl e
      | Inr rows \<Rightarrow> Inr (csv_header # rows))"




text \<open>
  The dictionary \<^verbatim>\<open>_collect_works\<close> stores under a key, and the property that every
  stored dictionary is of that form.
\<close>

definition combined_row :: "work_key \<Rightarrow> json \<Rightarrow> json \<Rightarrow> jdict" where
  "combined_row key nm ti =
     [ (py ''author_id'', JStr (fst key)), (py ''work_id'', JStr (snd key)),
       (py ''author_name'', nm), (py ''work_title'', ti) ]"

definition wf_works :: "(work_key \<times> jdict) list \<Rightarrow> bool" where
  "wf_works ws \<longleftrightarrow> (\<forall>(k, d) \<in> set ws. \<exists>n t. d = combined_row k n t)"

text \<open>Does a work pass the language filter?\<close>

definition passes :: "(pystr \<Rightarrow> pystr) \<Rightarrow> (json \<Rightarrow> pystr) \<Rightarrow> pystr list option \<Rightarrow> jdict \<Rightarrow> bool" where
  "passes lower repr nl wm \<longleftrightarrow>
     (case nl of
        None \<Rightarrow> True
      | Some ls \<Rightarrow> lower (py_str repr (dict_get wm (py ''language'') (JStr []))) \<in> set ls)"

text \<open>The label of a key of either catalogue.\<close>

definition coverage_label :: "(work_key \<times> jdict) list \<Rightarrow> (work_key \<times> jdict) list \<Rightarrow> work_key \<Rightarrow> pystr" where
  "coverage_label legacy_works tlg_works key =
     (if key \<in> fst ` set legacy_works \<and> key \<in> fst ` set tlg_works then py ''bot''
      else if key \<in> fst ` set tlg_works then py ''tlg'' else py ''leg'')"

text \<open>
  Two small catalogues: one work in both, one in the legacy catalogue only (and a Latin
  work that the filter drops), one in the TLG catalogue only.
\<close>

definition sample_legacy :: catalogue where
  "sample_legacy =
     [ (py ''0012'',
        \<lparr> other_items = [(py ''name'', JStr (py ''Homer''))],
          works_item = Some [ (py ''001'', [(py ''title'', JStr (py ''Iliad'')), (py ''language'', JStr (py ''grc''))]),
                         (py ''002'', [(py ''title'', JStr (py ''Odyssey'')), (py ''language'', JStr (py ''grc''))]),
                         (py ''900'', [(py ''title'', JStr (py ''Ilias Latina'')), (py ''language'', JStr (py ''lat''))]) ] \<rparr>) ]"

definition sample_tlg :: catalogue where
  "sample_tlg =
     [ (py ''0012'',
        \<lparr> other_items = [(py ''name'', JStr (py ''HOMERUS''))],
          works_item = Some [ (py ''001'', [(py ''title'', JStr (py ''Work 001'')), (py ''language'', JStr (py ''grc''))]) ] \<rparr>),
       (py ''0003'',
        \<lparr> other_items = [],
          works_item = Some [ (py ''001'', [(py ''language'', JStr (py ''grc''))]) ] \<rparr>) ]"

section \<open>\<^verbatim>\<open>discover_tlg.py\<close> and \<^verbatim>\<open>tlg_integrated_extractor.py\<close>: fetching and discovery\<close>










text \<open>\<^verbatim>\<open>str(n)\<close> and the format \<^verbatim>\<open>f"{n:03d}"\<close> of a number that is not negative.\<close>

function str_nat :: "nat \<Rightarrow> pystr" where
  "str_nat n = (if n < 10 then [48 + n] else str_nat (n div 10) @ [48 + n mod 10])"
  by pat_completeness auto
termination
  by (relation "measure id") auto

definition fmt03d :: "nat \<Rightarrow> pystr" where
  "fmt03d n = (let s = str_nat n in replicate (3 - length s) 48 @ s)"

definition urls_to_try :: "pystr \<Rightarrow> pystr \<Rightarrow> pystr \<Rightarrow> pystr list" where
  "urls_to_try base tlg_id work_id_str =
     [ base @ py ''/TLG'' @ tlg_id @ py ''/'' @ tlg_id @ py ''_'' @ work_id_str @ py ''.htm'',
       base @ py ''/TLG'' @ tlg_id @ py ''/'' @ tlg_id @ py ''%5F'' @ work_id_str @ py ''.htm'' ]"

text \<open>
  In discovery \<^verbatim>\<open>fetch_page\<close> is any function from the server's state and a URL to an
  optional page and the next state. A page counts when it is not \<open>None\<close>, not empty and
  longer than 1000: \<^verbatim>\<open>if content: if len(content) > 1000\<close> in one script,
  \<^verbatim>\<open>if content and len(content) > 1000\<close> in the other.
\<close>

definition substantial :: "pystr option \<Rightarrow> bool" where
  "substantial content \<longleftrightarrow>
     (case content of None \<Rightarrow> False | Some c \<Rightarrow> c \<noteq> [] \<and> length c > 1000)"

text \<open>
  The loop \<^verbatim>\<open>for url in urls_to_try\<close> with its \<^verbatim>\<open>break\<close>: the URL and page found, if
  any, the URLs fetched, and the server's state.
\<close>

fun try_urls ::
    "('w \<Rightarrow> pystr \<Rightarrow> pystr option \<times> 'w) \<Rightarrow> 'w \<Rightarrow> pystr list \<Rightarrow>
     (pystr \<times> pystr) option \<times> pystr list \<times> 'w" where
  "try_urls fetch w [] = (None, [], w)"
| "try_urls fetch w (u # us) =
     (case fetch w u of (content, w1) \<Rightarrow>
        if substantial content then (Some (u, the content), [u], w1)
        else (case try_urls fetch w1 us of (r, tried, w2) \<Rightarrow> (r, u # tried, w2)))"

text \<open>The answers the server gives when the URLs are fetched one after the other.\<close>

fun responses :: "('w \<Rightarrow> pystr \<Rightarrow> pystr option \<times> 'w) \<Rightarrow> 'w \<Rightarrow> pystr list \<Rightarrow> pystr option list" where
  "responses fetch w [] = []"
| "responses fetch w (u # us) = (case fetch w u of (content, w1) \<Rightarrow> content # responses fetch w1 us)"

text \<open>
  The state of the discovery loop: the two variables of the source, the server, and a
  record of each round (candidate, URLs fetched, found or not) kept for the proofs.
\<close>

record ('k, 'w) discovery =
  works :: "'k list"
  consecutive_misses :: nat
  rounds :: "(nat \<times> pystr list \<times> bool) list"
  world :: 'w

definition max_consecutive_misses :: nat where
  "max_consecutive_misses = 20"

text \<open>
  The body of \<^verbatim>\<open>for work_id in range(...)\<close>; the flag says that the body ended in
  \<^verbatim>\<open>break\<close>. \<open>mk\<close> builds the entry appended to \<^verbatim>\<open>works\<close> from the work ID, the URL
  and \<^verbatim>\<open>len(content)\<close>. The sleep that ends a round takes time and nothing else.
\<close>

definition discover_step ::
    "('w \<Rightarrow> pystr \<Rightarrow> pystr option \<times> 'w) \<Rightarrow> (pystr \<Rightarrow> pystr \<Rightarrow> nat \<Rightarrow> 'k) \<Rightarrow> pystr \<Rightarrow> pystr \<Rightarrow>
     ('k, 'w) discovery \<Rightarrow> nat \<Rightarrow> ('k, 'w) discovery \<times> bool" where
  "discover_step fetch mk base tlg_id st wid =
     (let work_id_str = fmt03d wid in
      case try_urls fetch (world st) (urls_to_try base tlg_id work_id_str) of
        (Some (u, content), tried, w1) \<Rightarrow>
          (st \<lparr> works := works st @ [mk work_id_str u (length content)],
                consecutive_misses := 0,
                rounds := rounds st @ [(wid, tried, True)],
                world := w1 \<rparr>, False)
      | (None, tried, w1) \<Rightarrow>
          (let misses = consecutive_misses st + 1 in
           (st \<lparr> consecutive_misses := misses,
                 rounds := rounds st @ [(wid, tried, False)],
                 world := w1 \<rparr>, misses \<ge> max_consecutive_misses)))"

fun discover_loop ::
    "('w \<Rightarrow> pystr \<Rightarrow> pystr option \<times> 'w) \<Rightarrow> (pystr \<Rightarrow> pystr \<Rightarrow> nat \<Rightarrow> 'k) \<Rightarrow> pystr \<Rightarrow> pystr \<Rightarrow>
     ('k, 'w) discovery \<Rightarrow> nat list \<Rightarrow> ('k, 'w) discovery" where
  "discover_loop fetch mk base tlg_id st [] = st"
| "discover_loop fetch mk base tlg_id st (wid # wids) =
     (case discover_step fetch mk base tlg_id st wid of
        (st', stop) \<Rightarrow> if stop then st' else discover_loop fetch mk base tlg_id st' wids)"

definition initial :: "'w \<Rightarrow> ('k, 'w) discovery" where
  "initial w = \<lparr> works = [], consecutive_misses = 0, rounds = [], world = w \<rparr>"

text \<open>\<^verbatim>\<open>TLGDiscovery.discover_author_works\<close>: \<^verbatim>\<open>range(1, max_works + 1)\<close>, 999 by default.\<close>

record TLGWork =
  work_id_str :: pystr
  work_title_str :: pystr
  work_url :: pystr
  estimated_size :: "nat option"

definition discover_author_works ::
    "('w \<Rightarrow> pystr \<Rightarrow> pystr option \<times> 'w) \<Rightarrow> pystr \<Rightarrow> pystr \<Rightarrow> nat \<Rightarrow> 'w \<Rightarrow> (TLGWork, 'w) discovery" where
  "discover_author_works fetch base tlg_id max_works w =
     discover_loop fetch
       (\<lambda>wid u n. \<lparr> work_id_str = wid, work_title_str = py ''Work '' @ wid, work_url = u,
                    estimated_size = Some n \<rparr>)
       base tlg_id (initial w) [1 ..< max_works + 1]"

text \<open>\<^verbatim>\<open>TLGIntegratedExtractor.discover_author_works\<close>: \<^verbatim>\<open>range(1, 1000)\<close>.\<close>

definition discover_author_works_integrated ::
    "('w \<Rightarrow> pystr \<Rightarrow> pystr option \<times> 'w) \<Rightarrow> pystr \<Rightarrow> pystr \<Rightarrow> 'w \<Rightarrow> (jdict, 'w) discovery" where
  "discover_author_works_integrated fetch base tlg_id w =
     discover_loop fetch
       (\<lambda>wid u n. [ (py ''work_id'', JStr wid), (py ''url'', JStr u),
                    (py ''estimated_size'', JNum (of_nat n)) ])
       base tlg_id (initial w) [1 ..< 1000]"

text \<open>The number of misses at the end of a list of rounds.\<close>

definition trailing_misses :: "(nat \<times> pystr list \<times> bool) list \<Rightarrow> nat" where
  "trailing_misses rs = length (takeWhile (\<lambda>(i, tried, found). \<not> found) (rev rs))"



text \<open>
  A round fetched a non-empty prefix of the candidate's two URLs, plain underscore
  first, and both of them unless it found a page.
\<close>

definition round_ok :: "pystr \<Rightarrow> pystr \<Rightarrow> nat \<times> pystr list \<times> bool \<Rightarrow> bool" where
  "round_ok base tlg_id r =
     (case r of (i, tried, found) \<Rightarrow>
        tried \<noteq> [] \<and> tried = take (length tried) (urls_to_try base tlg_id (fmt03d i)) \<and>
        (found \<or> tried = urls_to_try base tlg_id (fmt03d i)))"

text \<open>
  The candidates of the rounds are 1, 2, 3, \<dots> up to at most \<open>limit\<close>; no round but the
  last ends a run of \<^verbatim>\<open>max_consecutive_misses\<close> misses; and the rounds stop at
  \<open>limit\<close> or at such a run.
\<close>

definition probes_in_order :: "pystr \<Rightarrow> pystr \<Rightarrow> nat \<Rightarrow> (nat \<times> pystr list \<times> bool) list \<Rightarrow> bool" where
  "probes_in_order base tlg_id limit rs \<longleftrightarrow>
     map fst rs = [1 ..< Suc (length rs)]
     \<and> length rs \<le> limit
     \<and> list_all (round_ok base tlg_id) rs
     \<and> (\<forall>n < length rs. trailing_misses (take n rs) < max_consecutive_misses)
     \<and> (length rs = limit \<or> trailing_misses rs = max_consecutive_misses)"

text \<open>
  A server whose every page is too short, and one that has a long page for its first
  and its fifth request only.
\<close>

definition tiny_server :: "nat \<Rightarrow> pystr \<Rightarrow> pystr option \<times> nat" where
  "tiny_server w u = (Some (py ''<html></html>''), Suc w)"

definition sparse_server :: "nat \<Rightarrow> pystr \<Rightarrow> pystr option \<times> nat" where
  "sparse_server w u = ((if w = 0 \<or> w = 4 then Some (replicate 1001 120) else None), Suc w)"

section \<open>Properties of the string helpers\<close>

lemma split_on_nonempty: "split_on sep s \<noteq> []"
  by (induction s) (auto split: list.splits)

lemma split_on_no_sep: "l \<in> set (split_on sep s) \<Longrightarrow> sep \<notin> set l"
proof (induction s arbitrary: l)
  case Nil
  then show ?case by simp
next
  case (Cons c cs)
  then show ?case
    by (cases "split_on sep cs") (auto split: if_splits)
qed

lemma split_on_single: "sep \<notin> set x \<Longrightarrow> split_on sep x = [x]"
  by (induction x) auto

lemma split_on_append: "sep \<notin> set x \<Longrightarrow> split_on sep (x @ sep # r) = x # split_on sep r"
  by (induction x) auto

lemma split_join:
  "xs \<noteq> [] \<Longrightarrow> \<forall>x \<in> set xs. sep \<notin> set x \<Longrightarrow> split_on sep (join sep xs) = xs"
proof (induction sep xs rule: join.induct)
  case (1 sep)
  then show ?case by simp
next
  case (2 sep x)
  then show ?case by (simp add: split_on_single)
next
  case (3 sep x y ys)
  then show ?case by (simp add: split_on_append)
qed

lemma split_join_or_empty:
  "\<forall>x \<in> set xs. sep \<notin> set x \<Longrightarrow>
   split_on sep (join sep xs) = (if xs = [] then [[]] else xs)"
  by (simp add: split_join)

lemma set_strip: "set (strip s) \<subseteq> set s"
proof -
  have "set (strip s) \<subseteq> set (dropWhile is_space s)"
    unfolding strip_def using set_dropWhileD by fastforce
  also have "\<dots> \<subseteq> set s" using set_dropWhileD by fastforce
  finally show ?thesis .
qed

section \<open>The Greek text filter\<close>

lemma filter_line_cases:
  "filter_line isd (g, m) raw =
     (if strip raw = [] then (g, m)
      else if goes_greek isd (strip raw) then (g @ [strip raw], m)
      else (g, m @ [strip raw]))"
  by (auto simp: filter_line_def goes_greek_def Let_def)

lemma foldl_filter_line:
  "foldl (filter_line isd) (g, m) ls =
     (g @ filter (goes_greek isd) (filter (\<lambda>l. l \<noteq> []) (map strip ls)),
      m @ filter (\<lambda>l. \<not> goes_greek isd l) (filter (\<lambda>l. l \<noteq> []) (map strip ls)))"
  by (induction ls arbitrary: g m) (simp_all add: filter_line_cases)

text \<open>No character of the Greek ranges matches an ASCII literal, with or without case.\<close>

lemma match_one_greek:
  "\<forall>c \<in> set s. is_greek c \<Longrightarrow> p < 128 \<Longrightarrow> \<not> match_here isd (One (LitI p) # ps) s"
  by (cases s) (auto simp: ci_variants_def ascii_lower_def is_greek_def Let_def split: if_splits)

lemma re_find_greek:
  "\<forall>c \<in> set s. is_greek c \<Longrightarrow> p < 128 \<Longrightarrow> re_find isd (One (LitI p) # ps) s = None"
proof (induction s)
  case Nil
  then show ?case by simp
next
  case (Cons c cs)
  have "\<not> match_here isd (One (LitI p) # ps) (c # cs)"
    using Cons.prems by (rule match_one_greek)
  moreover have "re_find isd (One (LitI p) # ps) cs = None"
    using Cons by simp
  ultimately show ?case by simp
qed

lemma greek_not_metadata:
  assumes "\<forall>c \<in> set s. is_greek c"
  shows "\<not> is_metadata isd s"
  using assms
  by (simp add: is_metadata_def metadata_patterns_def litsI_def re_search_def re_find_greek)

lemma line_greek_ratio_all:
  assumes "\<forall>c \<in> set s. is_greek c" "s \<noteq> []"
  shows "line_greek_ratio s = 1"
proof -
  have "filter is_greek s = s" using assms(1) by simp
  then show ?thesis using assms(2) by (simp add: line_greek_ratio_def Let_def)
qed

lemma greek_goes_greek:
  assumes "\<forall>c \<in> set s. is_greek c" "s \<noteq> []"
  shows "goes_greek isd s"
  using greek_not_metadata[OF assms(1)] line_greek_ratio_all[OF assms]
  by (simp add: goes_greek_def)

text \<open>
  Claim C1. Take any line of the input (a piece of \<^verbatim>\<open>mixed_text.split('\n')\<close>) that is
  not blank after \<^verbatim>\<open>strip()\<close> and whose stripped form has only characters of the ranges
  U+0370..03FF and U+1F00..1FFF. Whatever its length and whatever \<^verbatim>\<open>\d\<close> matches, the
  stripped line is one of the lines of the \<^verbatim>\<open>'greek_text'\<close> output and is not one of the
  lines of the \<^verbatim>\<open>'metadata'\<close> output.
\<close>

theorem greek_line_is_text:
  assumes "raw \<in> set (split_on newline mixed_text)"
    and "strip raw \<noteq> []"
    and "\<forall>c \<in> set (strip raw). is_greek c"
  shows "strip raw \<in> set (split_on newline (greek_text (separate_greek_from_metadata isd mixed_text)))
       \<and> strip raw \<notin> set (split_on newline (metadata (separate_greek_from_metadata isd mixed_text)))"
proof -
  let ?ls = "filter (\<lambda>l. l \<noteq> []) (map strip (split_on newline mixed_text))"
  let ?G = "filter (goes_greek isd) ?ls"
  let ?M = "filter (\<lambda>l. \<not> goes_greek isd l) ?ls"
  have out: "separate_greek_from_metadata isd mixed_text =
      \<lparr> greek_text = join newline ?G, metadata = join newline ?M, mixed_content = mixed_text \<rparr>"
    by (simp add: separate_greek_from_metadata_def foldl_filter_line)
  have nosep: "\<forall>x \<in> set ?ls. newline \<notin> set x"
    using split_on_no_sep set_strip by fastforce
  have gg: "goes_greek isd (strip raw)"
    using assms(2,3) greek_goes_greek by blast
  have inG: "strip raw \<in> set ?G"
    using assms(1,2) gg by simp
  have notM: "strip raw \<notin> set ?M"
    using gg by simp
  have Gne: "?G \<noteq> []"
    using inG by (metis empty_iff empty_set)
  have nosepG: "\<forall>x \<in> set ?G. newline \<notin> set x"
    using nosep by (metis filter_is_subset subsetD)
  have nosepM: "\<forall>x \<in> set ?M. newline \<notin> set x"
    using nosep by (metis filter_is_subset subsetD)
  have G: "split_on newline (join newline ?G) = ?G"
    using Gne nosepG by (rule split_join)
  have M: "split_on newline (join newline ?M) = (if ?M = [] then [[]] else ?M)"
    using nosepM by (rule split_join_or_empty)
  show ?thesis
    unfolding out using inG notM G M assms(2) by (auto split: if_splits)
qed

theorem greek_line_is_text_witness:
  "[32, 945, 946] \<in> set (split_on newline [83, 58, 10, 32, 945, 946])
   \<and> strip [32, 945, 946] \<noteq> []
   \<and> list_all is_greek (strip [32, 945, 946])
   \<and> strip [32, 945, 946]
       \<in> set (split_on newline
             (greek_text (separate_greek_from_metadata ascii_digit [83, 58, 10, 32, 945, 946])))
   \<and> strip [32, 945, 946]
       \<notin> set (split_on newline
             (metadata (separate_greek_from_metadata ascii_digit [83, 58, 10, 32, 945, 946])))"
proof -
  have s: "strip [32, 945, 946] = [945, 946]"
    by (simp add: strip_def is_space_def)
  have a: "[32, 945, 946] \<in> set (split_on newline [83, 58, 10, 32, 945, 946])"
    by simp
  have b: "strip [32, 945, 946] \<noteq> []"
    by (simp add: s)
  have c: "\<forall>c \<in> set (strip [32, 945, 946]). is_greek c"
    by (simp add: s is_greek_def)
  show ?thesis
    using a b c greek_line_is_text [OF a b c, of ascii_digit] by (simp add: list_all_iff)
qed

section \<open>Parsing a reference out of a URL\<close>

lemma match_here_ones:
  "match_here isd (map One ks @ ps) s \<longleftrightarrow>
     (\<exists>u v. s = u @ v \<and> list_all2 (cls_match isd) ks u \<and> match_here isd ps v)"
proof (induction ks arbitrary: s)
  case Nil
  then show ?case by simp
next
  case (Cons k ks)
  show ?case
  proof (cases s)
    case Nil
    then show ?thesis by simp
  next
    case (Cons c cs)
    then show ?thesis
      by (auto simp: Cons.IH list_all2_Cons1 Cons_eq_append_conv)
  qed
qed

lemma list_all2_lits:
  "list_all2 (cls_match isd) (map (\<lambda>c. Lit (of_char c)) str) u \<longleftrightarrow> u = py str"
  by (induction str arbitrary: u) (auto simp: py_def list_all2_Cons1)

lemma list_all2_digits:
  "list_all2 (cls_match isd) (replicate n Digit) u \<longleftrightarrow> length u = n \<and> (\<forall>c \<in> set u. isd c)"
  by (induction n arbitrary: u) (auto simp: list_all2_Cons1 length_Suc_conv)

lemma match_lits:
  "match_here isd (lits str @ ps) s \<longleftrightarrow> (\<exists>v. s = py str @ v \<and> match_here isd ps v)"
proof -
  have h: "lits str = map One (map (\<lambda>c. Lit (of_char c)) str)"
    by (simp add: lits_def)
  show ?thesis
    unfolding h match_here_ones list_all2_lits by auto
qed

lemma match_lits_end:
  "match_here isd (lits str) s \<longleftrightarrow> (\<exists>v. s = py str @ v)"
  using match_lits [of isd str "[]" s] by simp

lemma match_digits:
  "match_here isd (digits n @ ps) s \<longleftrightarrow>
     (\<exists>u v. s = u @ v \<and> length u = n \<and> (\<forall>c \<in> set u. isd c) \<and> match_here isd ps v)"
proof -
  have h: "digits n = map One (replicate n Digit)"
    by (simp add: digits_def)
  show ?thesis
    unfolding h match_here_ones list_all2_digits by auto
qed

lemma match_url:
  "match_here isd (lits ''/TLG'' @ digits 4 @ lits ''/'' @ digits 4 @ lits sep @ digits 3 @ lits ''.htm'') t
     \<longleftrightarrow> (\<exists>a w. url_shape isd (py sep) t a w)"
  unfolding url_shape_def
  apply (simp only: match_lits match_digits match_lits_end)
  apply (rule iffI)
   apply (elim exE conjE)
   apply (intro exI conjI)
         apply (simp only:)
        apply assumption+
  apply (elim exE conjE)
  apply (intro exI conjI)
             apply (assumption | rule refl)+
  done

lemma match_plain:
  "match_here isd url_pattern_plain t \<longleftrightarrow> (\<exists>a w. url_shape isd (py ''_'') t a w)"
  unfolding url_pattern_plain_def by (rule match_url)

lemma match_encoded:
  "match_here isd url_pattern_encoded t \<longleftrightarrow> (\<exists>a w. url_shape isd (py ''%5F'') t a w)"
  unfolding url_pattern_encoded_def by (rule match_url)

lemma re_find_Some:
  "re_find isd p s = Some i \<Longrightarrow> i \<le> length s \<and> match_here isd p (drop i s)"
proof (induction s arbitrary: i)
  case Nil
  then show ?case by (simp split: if_splits)
next
  case (Cons c cs)
  then show ?case by (auto split: if_splits)
qed

lemma re_find_None:
  "re_find isd p s = None \<longleftrightarrow> (\<forall>i \<le> length s. \<not> match_here isd p (drop i s))"
proof (induction s)
  case Nil
  then show ?case by simp
next
  case (Cons c cs)
  show ?case
  proof
    assume "re_find isd p (c # cs) = None"
    then have h: "\<not> match_here isd p (c # cs)" "\<forall>i \<le> length cs. \<not> match_here isd p (drop i cs)"
      using Cons.IH by (auto split: if_splits)
    show "\<forall>i \<le> length (c # cs). \<not> match_here isd p (drop i (c # cs))"
    proof (intro allI impI)
      fix i assume "i \<le> length (c # cs)"
      then show "\<not> match_here isd p (drop i (c # cs))"
        using h by (cases i) auto
    qed
  next
    assume a: "\<forall>i \<le> length (c # cs). \<not> match_here isd p (drop i (c # cs))"
    then have "\<not> match_here isd p (c # cs)" by (metis drop0 le0)
    moreover have "\<forall>i \<le> length cs. \<not> match_here isd p (drop i cs)"
    proof (intro allI impI)
      fix i assume "i \<le> length cs"
      then show "\<not> match_here isd p (drop i cs)"
        using a [rule_format, of "Suc i"] by simp
    qed
    ultimately show "re_find isd p (c # cs) = None"
      using Cons.IH by simp
  qed
qed

lemma shape_groups:
  assumes "url_shape isd sep (drop i u) a w" "length sep = n"
  shows "take 4 (drop (i + 4) u) = a" "take 3 (drop (i + (13 + n)) u) = w"
proof -
  obtain d rest where t: "drop i u = py ''/TLG'' @ a @ py ''/'' @ d @ sep @ w @ py ''.htm'' @ rest"
    and l: "length a = 4" "length d = 4" "length w = 3"
    using assms(1) unfolding url_shape_def by blast
  have "drop (i + 4) u = drop 4 (drop i u)" by (simp add: add.commute)
  then show "take 4 (drop (i + 4) u) = a" using t l by (simp add: py_def)
  let ?P = "py ''/TLG'' @ a @ py ''/'' @ d @ sep"
  have lp: "length ?P = 13 + n" using l assms(2) by (simp add: py_def)
  have "drop (i + (13 + n)) u = drop (length ?P) (drop i u)"
    unfolding lp by (simp add: add.commute)
  also have "\<dots> = drop (length ?P) (?P @ (w @ py ''.htm'' @ rest))"
    using t by simp
  also have "\<dots> = w @ py ''.htm'' @ rest"
    by (rule append_eq_conv_conj [THEN iffD1, THEN conjunct2, symmetric]) simp
  finally show "take 3 (drop (i + (13 + n)) u) = w" using l by simp
qed

lemma shape_in_url:
  assumes "i \<le> length u" "url_shape isd sep (drop i u) a w"
  shows "length a = 4 \<and> (\<forall>c \<in> set a. isd c) \<and> length w = 3 \<and> (\<forall>c \<in> set w. isd c) \<and>
         (\<exists>pre d rest. u = pre @ py ''/TLG'' @ a @ py ''/'' @ d @ sep @ w @ py ''.htm'' @ rest \<and>
            length d = 4 \<and> (\<forall>c \<in> set d. isd c))"
proof -
  obtain d rest where t: "drop i u = py ''/TLG'' @ a @ py ''/'' @ d @ sep @ w @ py ''.htm'' @ rest"
    and l: "length a = 4" "\<forall>c \<in> set a. isd c" "length d = 4" "\<forall>c \<in> set d. isd c"
           "length w = 3" "\<forall>c \<in> set w. isd c"
    using assms(2) unfolding url_shape_def by blast
  have "u = take i u @ drop i u" by simp
  then have "u = take i u @ py ''/TLG'' @ a @ py ''/'' @ d @ sep @ w @ py ''.htm'' @ rest"
    using t by simp
  then show ?thesis using l by blast
qed

lemma parse_plain:
  assumes "re_find isd url_pattern_plain u = Some i"
  shows "\<exists>a w. parse_url_reference isd u = Inr (a, w) \<and> i \<le> length u \<and>
           url_shape isd (py ''_'') (drop i u) a w"
proof -
  have i: "i \<le> length u" and m: "match_here isd url_pattern_plain (drop i u)"
    using re_find_Some [OF assms] by simp_all
  obtain a w where sh: "url_shape isd (py ''_'') (drop i u) a w"
    using m match_plain by blast
  have "take 4 (drop (i + 4) u) = a" "take 3 (drop (i + 14) u) = w"
    using shape_groups [OF sh, of 1] by (simp_all add: py_def)
  then have "parse_url_reference isd u = Inr (a, w)"
    using assms by (simp add: parse_url_reference_def)
  then show ?thesis using i sh by blast
qed

lemma parse_encoded:
  assumes "re_find isd url_pattern_plain u = None"
    and "re_find isd url_pattern_encoded u = Some i"
  shows "\<exists>a w. parse_url_reference isd u = Inr (a, w) \<and> i \<le> length u \<and>
           url_shape isd (py ''%5F'') (drop i u) a w"
proof -
  have i: "i \<le> length u" and m: "match_here isd url_pattern_encoded (drop i u)"
    using re_find_Some [OF assms(2)] by simp_all
  obtain a w where sh: "url_shape isd (py ''%5F'') (drop i u) a w"
    using m match_encoded by blast
  have "take 4 (drop (i + 4) u) = a" "take 3 (drop (i + 16) u) = w"
    using shape_groups [OF sh, of 3] by (simp_all add: py_def)
  then have "parse_url_reference isd u = Inr (a, w)"
    using assms by (simp add: parse_url_reference_def)
  then show ?thesis using i sh by blast
qed

text \<open>
  Claim C9. \<^verbatim>\<open>parse_url_reference\<close> raises \<^verbatim>\<open>ValueError\<close> exactly when \<^verbatim>\<open>re.search\<close>
  finds neither the plain-underscore pattern nor the \<^verbatim>\<open>%5F\<close> pattern in the URL, and
  returns a pair exactly when it finds one of them. A returned author ID is four
  characters of the class \<^verbatim>\<open>\d\<close> and a returned work ID three, and both are taken from
  the URL: the URL reads \<^verbatim>\<open>.../TLG<author>/<four digits><sep><work>.htm...\<close> with
  \<^verbatim>\<open>_\<close> or \<^verbatim>\<open>%5F\<close> for the separator.
\<close>

theorem parse_url_reference_spec:
  "(parse_url_reference isd u = Inl ValueError \<longleftrightarrow>
      \<not> re_search isd url_pattern_plain u \<and> \<not> re_search isd url_pattern_encoded u)
   \<and> ((\<exists>a w. parse_url_reference isd u = Inr (a, w)) \<longleftrightarrow>
      re_search isd url_pattern_plain u \<or> re_search isd url_pattern_encoded u)
   \<and> (\<forall>a w. parse_url_reference isd u = Inr (a, w) \<longrightarrow>
        length a = 4 \<and> (\<forall>c \<in> set a. isd c) \<and> length w = 3 \<and> (\<forall>c \<in> set w. isd c) \<and>
        (\<exists>pre d sep rest.
           u = pre @ py ''/TLG'' @ a @ py ''/'' @ d @ sep @ w @ py ''.htm'' @ rest \<and>
           (sep = py ''_'' \<or> sep = py ''%5F'') \<and> length d = 4 \<and> (\<forall>c \<in> set d. isd c)))"
proof (intro conjI allI impI)
  show "parse_url_reference isd u = Inl ValueError \<longleftrightarrow>
      \<not> re_search isd url_pattern_plain u \<and> \<not> re_search isd url_pattern_encoded u"
    by (auto simp: parse_url_reference_def re_search_def split: option.splits)
next
  show "(\<exists>a w. parse_url_reference isd u = Inr (a, w)) \<longleftrightarrow>
      re_search isd url_pattern_plain u \<or> re_search isd url_pattern_encoded u"
    by (auto simp: parse_url_reference_def re_search_def split: option.splits)
next
  fix a w assume r: "parse_url_reference isd u = Inr (a, w)"
  have "\<exists>i sep. i \<le> length u \<and> url_shape isd sep (drop i u) a w \<and>
          (sep = py ''_'' \<or> sep = py ''%5F'')"
  proof (cases "re_find isd url_pattern_plain u")
    case (Some i)
    then show ?thesis using parse_plain [OF Some] r by auto
  next
    case None
    show ?thesis
    proof (cases "re_find isd url_pattern_encoded u")
      case (Some i)
      then show ?thesis using parse_encoded [OF None Some] r by auto
    next
      case N2: None
      then show ?thesis using None r by (simp add: parse_url_reference_def)
    qed
  qed
  then obtain i sep where i: "i \<le> length u" and sh: "url_shape isd sep (drop i u) a w"
    and sep: "sep = py ''_'' \<or> sep = py ''%5F''" by blast
  note s = shape_in_url [OF i sh]
  show "length a = 4" "\<forall>c \<in> set a. isd c" "length w = 3" "\<forall>c \<in> set w. isd c"
    using s by blast+
  show "\<exists>pre d sep rest.
           u = pre @ py ''/TLG'' @ a @ py ''/'' @ d @ sep @ w @ py ''.htm'' @ rest \<and>
           (sep = py ''_'' \<or> sep = py ''%5F'') \<and> length d = 4 \<and> (\<forall>c \<in> set d. isd c)"
    using s sep by blast
qed

theorem parse_url_reference_spec_witness:
  "parse_url_reference ascii_digit (py ''x/TLG0012/0019%5F021.html'') = Inr (py ''0012'', py ''021'')
   \<and> length (py ''0012'') = 4 \<and> list_all ascii_digit (py ''0012'')
   \<and> length (py ''021'') = 3 \<and> list_all ascii_digit (py ''021'')
   \<and> (\<exists>pre d sep rest.
         py ''x/TLG0012/0019%5F021.html''
           = pre @ py ''/TLG'' @ py ''0012'' @ py ''/'' @ d @ sep @ py ''021'' @ py ''.htm'' @ rest \<and>
         (sep = py ''_'' \<or> sep = py ''%5F'') \<and> length d = 4 \<and> (\<forall>c \<in> set d. ascii_digit c))"
proof -
  have e: "parse_url_reference ascii_digit (py ''x/TLG0012/0019%5F021.html'')
             = Inr (py ''0012'', py ''021'')"
    by code_simp
  from parse_url_reference_spec [of ascii_digit "py ''x/TLG0012/0019%5F021.html''"]
  have "\<forall>a w. parse_url_reference ascii_digit (py ''x/TLG0012/0019%5F021.html'') = Inr (a, w) \<longrightarrow>
        length a = 4 \<and> (\<forall>c \<in> set a. ascii_digit c) \<and> length w = 3 \<and> (\<forall>c \<in> set w. ascii_digit c) \<and>
        (\<exists>pre d sep rest.
           py ''x/TLG0012/0019%5F021.html''
             = pre @ py ''/TLG'' @ a @ py ''/'' @ d @ sep @ w @ py ''.htm'' @ rest \<and>
           (sep = py ''_'' \<or> sep = py ''%5F'') \<and> length d = 4 \<and> (\<forall>c \<in> set d. ascii_digit c))"
    by (rule conjunct2 [THEN conjunct2])
  from this [rule_format, OF e] e show ?thesis
    unfolding list_all_iff by (intro conjI) blast+
qed

section \<open>Citations for authors without an abbreviation\<close>

lemma work_mapping_unknown:
  "aid \<notin> fst ` set TLG_ABBREVIATIONS \<Longrightarrow> work_mapping aid wid = None"
  by (simp add: work_mapping_def WORK_MAPPINGS_def TLG_ABBREVIATIONS_def)

lemma author_abbreviation_unknown:
  "aid \<notin> fst ` set TLG_ABBREVIATIONS \<Longrightarrow> author_abbreviation aid = py ''TLG'' @ aid"
  by (simp add: author_abbreviation_def map_of_eq_None_iff [THEN iffD2])

text \<open>
  Claim C6. For an author ID that is not a key of \<^verbatim>\<open>TLG_ABBREVIATIONS\<close>,
  \<^verbatim>\<open>build_traditional_citation\<close> returns \<^verbatim>\<open>TLG<id>\<close>, a space and the work ID: the
  fallback label stands verbatim where the author abbreviation goes. Whenever
  \<^verbatim>\<open>create_reference_from_discovery\<close> returns a reference for such an author, its
  \<^verbatim>\<open>traditional_abbreviation\<close> is the same \<^verbatim>\<open>TLG<id>\<close> and its citation starts with it.
\<close>

theorem fallback_abbreviation:
  assumes "aid \<notin> fst ` set TLG_ABBREVIATIONS"
  shows "build_traditional_citation aid wid = (py ''TLG'' @ aid) @ py '' '' @ wid
       \<and> (\<forall>r. author_data (py ''tlg_id'') = Some aid \<and>
               create_reference_from_discovery now author_data work_data = Inr r \<longrightarrow>
               traditional_abbreviation r = py ''TLG'' @ aid \<and>
               (\<exists>wid'. work_data (py ''work_id'') = Some wid' \<and>
                  traditional_citation r = (py ''TLG'' @ aid) @ py '' '' @ wid'))"
proof (intro conjI allI impI)
  show c: "build_traditional_citation aid wid = (py ''TLG'' @ aid) @ py '' '' @ wid" for wid
    using assms
    by (simp add: build_traditional_citation_def work_mapping_unknown author_abbreviation_unknown)
  fix r
  assume a: "author_data (py ''tlg_id'') = Some aid \<and>
               create_reference_from_discovery now author_data work_data = Inr r"
  then show "traditional_abbreviation r = py ''TLG'' @ aid"
    using assms
    by (auto simp: create_reference_from_discovery_def subscript_def Let_def
        author_abbreviation_unknown split: option.splits sum.splits prod.splits)
  from a show "\<exists>wid'. work_data (py ''work_id'') = Some wid' \<and>
                  traditional_citation r = (py ''TLG'' @ aid) @ py '' '' @ wid'"
    using c
    by (auto simp: create_reference_from_discovery_def subscript_def Let_def
        split: option.splits sum.splits prod.splits)
qed

theorem fallback_abbreviation_witness:
  "py ''9999'' \<notin> fst ` set TLG_ABBREVIATIONS
   \<and> build_traditional_citation (py ''9999'') (py ''001'') = py ''TLG9999 001''
   \<and> unknown_author (py ''tlg_id'') = Some (py ''9999'')
   \<and> (\<exists>r. create_reference_from_discovery [] unknown_author first_work = Inr r
          \<and> traditional_abbreviation r = py ''TLG9999''
          \<and> traditional_citation r = py ''TLG9999 001'')"
proof -
  have h: "py ''9999'' \<notin> fst ` set TLG_ABBREVIATIONS"
    by (simp add: TLG_ABBREVIATIONS_def py_def)
  have a: "unknown_author (py ''tlg_id'') = Some (py ''9999'')"
    by (simp add: unknown_author_def py_def)
  have w: "first_work (py ''work_id'') = Some (py ''001'')"
    by (simp add: first_work_def py_def)
  have "\<not> isl (create_reference_from_discovery [] unknown_author first_work)"
    by code_simp
  then obtain r where r: "create_reference_from_discovery [] unknown_author first_work = Inr r"
    by (cases "create_reference_from_discovery [] unknown_author first_work") auto
  note t = fallback_abbreviation [OF h, of "py ''001''" unknown_author "[]" first_work]
  have c: "build_traditional_citation (py ''9999'') (py ''001'') = py ''TLG9999 001''"
    using t by (simp add: py_def)
  have "traditional_abbreviation r = py ''TLG9999'' \<and> traditional_citation r = py ''TLG9999 001''"
    using t a r w by (auto simp: py_def)
  then show ?thesis using h a c r by blast
qed

section \<open>Validation\<close>

lemma foldl_count_char:
  "foldl (count_char isalpha) (g, t) s =
     (g + length (filter (\<lambda>c. isalpha c \<and> is_greek c) s), t + length (filter isalpha s))"
  by (induction s arbitrary: g t) (simp_all add: count_char_def)

lemma validate_greek_content_cases:
  "validate_greek_content isalpha text =
     (let g = length (filter (\<lambda>c. isalpha c \<and> is_greek c) text);
          t = length (filter isalpha text) in
      if length text < min_text_length then
        Inr \<lparr> valid = False, reason = ''Text too short'', length_chars = length text,
              word_count = None, greek_chars = None, total_alpha_chars = None,
              greek_ratio = 0 \<rparr>
      else if t = 0 then
        Inr \<lparr> valid = False, reason = ''No alphabetic characters'', length_chars = length text,
              word_count = None, greek_chars = None, total_alpha_chars = None,
              greek_ratio = 0 \<rparr>
      else
        Inr \<lparr> valid = (min_greek_ratio \<le> of_nat g / of_nat t),
              reason = (if min_greek_ratio \<le> of_nat g / of_nat t then ''Valid Greek text''
                        else ''Insufficient Greek content''),
              length_chars = length text,
              word_count = Some (length (split_words text)),
              greek_chars = Some g, total_alpha_chars = Some t,
              greek_ratio = of_nat g / of_nat t \<rparr>)"
  by (auto simp: validate_greek_content_def foldl_count_char true_div_def Let_def min_text_length_def)

lemma alpha_greek_le:
  "length (filter (\<lambda>c. isalpha c \<and> is_greek c) text) \<le> length (filter isalpha text)"
proof -
  have "filter (\<lambda>c. isalpha c \<and> is_greek c) text = filter is_greek (filter isalpha text)"
    by (simp add: conj_commute)
  then show ?thesis by (metis length_filter_le)
qed

text \<open>
  Claim C10. \<^verbatim>\<open>validate_greek_content\<close> always returns a dictionary (no
  \<^verbatim>\<open>ZeroDivisionError\<close>), and the \<^verbatim>\<open>greek_ratio\<close> in it lies between 0 and 1. For a text
  of at least 50 characters with an alphabetic character the ratio is the number of
  alphabetic characters in the Greek ranges over the number of alphabetic characters:
  nothing else is counted. A text of at least 50 characters without any alphabetic
  character is reported invalid, with ratio 0 and the reason
  \<^verbatim>\<open>No alphabetic characters\<close>.
\<close>

theorem greek_ratio_bounds:
  "\<exists>tv. validate_greek_content isalpha text = Inr tv
     \<and> 0 \<le> greek_ratio tv \<and> greek_ratio tv \<le> 1
     \<and> (min_text_length \<le> length text \<and> (\<exists>c \<in> set text. isalpha c) \<longrightarrow>
          greek_ratio tv =
            of_nat (length (filter (\<lambda>c. isalpha c \<and> is_greek c) text))
              / of_nat (length (filter isalpha text)))
     \<and> (min_text_length \<le> length text \<and> (\<forall>c \<in> set text. \<not> isalpha c) \<longrightarrow>
          \<not> valid tv \<and> greek_ratio tv = 0 \<and> reason tv = ''No alphabetic characters'')"
proof -
  let ?g = "length (filter (\<lambda>c. isalpha c \<and> is_greek c) text)"
  let ?t = "length (filter isalpha text)"
  have le: "?g \<le> ?t" by (rule alpha_greek_le)
  have t0: "?t = 0 \<longleftrightarrow> (\<forall>c \<in> set text. \<not> isalpha c)"
    by (simp add: filter_empty_conv)
  have r: "0 < ?t \<Longrightarrow> (of_nat ?g / of_nat ?t :: rat) \<le> 1"
    using le by simp
  show ?thesis
  proof (cases "length text < min_text_length")
    case True
    then show ?thesis
      by (simp add: validate_greek_content_cases Let_def)
  next
    case long: False
    show ?thesis
    proof (cases "?t = 0")
      case True
      then show ?thesis
        using long t0 by (simp add: validate_greek_content_cases Let_def)
    next
      case False
      then have "\<exists>c \<in> set text. isalpha c" using t0 by blast
      then show ?thesis
        using long False r by (simp add: validate_greek_content_cases Let_def)
    qed
  qed
qed

theorem greek_ratio_bounds_witness:
  "(\<exists>tv. validate_greek_content sample_isalpha (replicate 50 945) = Inr tv
       \<and> min_text_length \<le> length (replicate 50 (945::nat))
       \<and> (\<exists>c \<in> set (replicate 50 945). sample_isalpha c)
       \<and> greek_ratio tv = 1)
   \<and> (\<exists>tv. validate_greek_content sample_isalpha (replicate 50 49) = Inr tv
       \<and> min_text_length \<le> length (replicate 50 (49::nat))
       \<and> (\<forall>c \<in> set (replicate 50 49). \<not> sample_isalpha c)
       \<and> \<not> valid tv \<and> greek_ratio tv = 0 \<and> reason tv = ''No alphabetic characters'')"
proof -
  have l1: "min_text_length \<le> length (replicate 50 (945::nat))"
    and l2: "min_text_length \<le> length (replicate 50 (49::nat))"
    by (simp_all add: min_text_length_def)
  have a1: "\<exists>c \<in> set (replicate 50 945). sample_isalpha c"
    by (simp add: sample_isalpha_def)
  have a2: "\<forall>c \<in> set (replicate 50 49). \<not> sample_isalpha c"
    by (simp add: sample_isalpha_def)
  have f: "of_nat (length (filter (\<lambda>c. sample_isalpha c \<and> is_greek c) (replicate 50 945)))
              / of_nat (length (filter sample_isalpha (replicate 50 945))) = (1::rat)"
    by (simp add: sample_isalpha_def is_greek_def)
  show ?thesis
    using greek_ratio_bounds [of sample_isalpha "replicate 50 945"]
      greek_ratio_bounds [of sample_isalpha "replicate 50 49"] l1 l2 a1 a2 f
    by (metis (no_types, lifting))
qed

lemma valid_ref_iff:
  "valid_ref (validate_reference_completeness r) \<longleftrightarrow>
     \<not> blank (author_id r) \<and> \<not> blank (work_id r) \<and> \<not> blank (author_name r) \<and>
     \<not> blank (work_title r) \<and> \<not> blank (traditional_citation r) \<and> \<not> blank (url r)"
  by (simp add: validate_reference_completeness_def required_reference_fields_def Let_def)

lemma validate_greek_content_total:
  "\<exists>tv. validate_greek_content isalpha text = Inr tv"
  by (simp add: validate_greek_content_cases Let_def)

text \<open>
  The Greek-character ratio of a text: its letters in the Greek ranges over its letters,
  0 for a text without letters.
\<close>

lemma valid_iff_thresholds:
  assumes "validate_greek_content isalpha text = Inr tv"
  shows "valid tv \<longleftrightarrow>
           min_text_length \<le> length text \<and>
           min_greek_ratio \<le>
             (if length (filter isalpha text) = 0 then 0
              else of_nat (length (filter (\<lambda>c. isalpha c \<and> is_greek c) text))
                     / of_nat (length (filter isalpha text)))"
    and "min_text_length \<le> length text \<longrightarrow>
           greek_ratio tv =
             (if length (filter isalpha text) = 0 then 0
              else of_nat (length (filter (\<lambda>c. isalpha c \<and> is_greek c) text))
                     / of_nat (length (filter isalpha text)))"
  using assms
  by (auto simp: validate_greek_content_cases Let_def min_greek_ratio_def split: if_splits)

lemma sample_text_validation:
  "validate_greek_content sample_isalpha (replicate 50 945) =
     Inr \<lparr> valid = True, reason = ''Valid Greek text'', length_chars = 50,
           word_count = Some (length (split_words (replicate 50 945))),
           greek_chars = Some 50, total_alpha_chars = Some 50, greek_ratio = 1 \<rparr>"
proof -
  have f1: "filter (\<lambda>c. sample_isalpha c \<and> is_greek c) (replicate 50 945) = replicate 50 945"
    by (simp add: sample_isalpha_def is_greek_def)
  have f2: "filter sample_isalpha (replicate 50 945) = replicate 50 945"
    by (simp add: sample_isalpha_def)
  show ?thesis
    by (simp add: validate_greek_content_cases f1 f2 Let_def min_text_length_def
        min_greek_ratio_def)
qed

lemma sample_text_ratio:
  "(if length (filter sample_isalpha (replicate 50 945)) = 0 then 0
    else of_nat (length (filter (\<lambda>c. sample_isalpha c \<and> is_greek c) (replicate 50 945)))
           / of_nat (length (filter sample_isalpha (replicate 50 945)))) = (1::rat)"
  by (simp add: sample_isalpha_def is_greek_def)

text \<open>
  Claim C5, as amended. \<^verbatim>\<open>validate_extraction\<close> always returns, and its
  \<^verbatim>\<open>overall_valid\<close> flag is the conjunction of the two threshold checks on the extracted
  text and of the completeness of the reference, and nothing else: the text has at
  least 50 characters, the Greek-character ratio of the text (its Greek letters over
  its letters, 0 without letters) is at least 0.2, and none of the six required
  reference fields is empty or blank. The two text checks together are the text's own
  \<^verbatim>\<open>valid\<close> flag, and for a text of at least 50 characters the ratio reported is the
  ratio of the text.
\<close>

theorem overall_valid_conjunction:
  "\<exists>v. validate_extraction isalpha now extraction = Inr v
     \<and> (let text = raw_text (text_structure extraction);
            letters = length (filter isalpha text);
            greek_letters = length (filter (\<lambda>c. isalpha c \<and> is_greek c) text);
            ratio = (if letters = 0 then 0 else of_nat greek_letters / of_nat letters)
        in (valid (text_validation v) \<longleftrightarrow>
              min_text_length \<le> length text \<and> min_greek_ratio \<le> ratio)
         \<and> (overall_valid v \<longleftrightarrow>
              (min_text_length \<le> length text \<and> min_greek_ratio \<le> ratio) \<and>
              (\<not> blank (author_id (tlg_reference extraction)) \<and>
               \<not> blank (work_id (tlg_reference extraction)) \<and>
               \<not> blank (author_name (tlg_reference extraction)) \<and>
               \<not> blank (work_title (tlg_reference extraction)) \<and>
               \<not> blank (traditional_citation (tlg_reference extraction)) \<and>
               \<not> blank (url (tlg_reference extraction))))
         \<and> (min_text_length \<le> length text \<longrightarrow> greek_ratio (text_validation v) = ratio))"
proof -
  let ?text = "raw_text (text_structure extraction)"
  obtain tv where tv: "validate_greek_content isalpha ?text = Inr tv"
    using validate_greek_content_total by blast
  note v = valid_iff_thresholds [OF tv]
  have e: "validate_extraction isalpha now extraction =
             Inr \<lparr> overall_valid =
                     (valid tv \<and> valid_ref (validate_reference_completeness (tlg_reference extraction))),
                   text_validation = tv,
                   reference_validation = validate_reference_completeness (tlg_reference extraction),
                   validation_timestamp = now \<rparr>"
    using tv by (simp add: validate_extraction_def Let_def)
  show ?thesis
    unfolding e Let_def using v by (simp add: valid_ref_iff)
qed

theorem overall_valid_conjunction_witness:
  "\<exists>v. validate_extraction sample_isalpha [] sample_extraction = Inr v
     \<and> overall_valid v
     \<and> valid (text_validation v)
     \<and> greek_ratio (text_validation v) = 1
     \<and> min_text_length \<le> length (raw_text (text_structure sample_extraction))
     \<and> min_greek_ratio \<le>
         of_nat (length (filter (\<lambda>c. sample_isalpha c \<and> is_greek c)
                    (raw_text (text_structure sample_extraction))))
           / of_nat (length (filter sample_isalpha (raw_text (text_structure sample_extraction))))
     \<and> \<not> blank (author_name (tlg_reference sample_extraction))"
proof -
  have b: "\<not> blank (author_id (tlg_reference sample_extraction)) \<and>
           \<not> blank (work_id (tlg_reference sample_extraction)) \<and>
           \<not> blank (author_name (tlg_reference sample_extraction)) \<and>
           \<not> blank (work_title (tlg_reference sample_extraction)) \<and>
           \<not> blank (traditional_citation (tlg_reference sample_extraction)) \<and>
           \<not> blank (url (tlg_reference sample_extraction))"
    by (simp add: sample_extraction_def sample_reference_def blank_def strip_def is_space_def py_def)
  have x: "raw_text (text_structure sample_extraction) = replicate 50 945"
    by (simp add: sample_extraction_def)
  have l: "min_text_length \<le> length (replicate 50 (945::nat))"
    by (simp add: min_text_length_def)
  have g: "min_greek_ratio \<le> (1::rat)"
    by (simp add: min_greek_ratio_def)
  obtain v where v: "validate_extraction sample_isalpha [] sample_extraction = Inr v"
    and a: "valid (text_validation v)"
    and o: "overall_valid v"
    and q: "greek_ratio (text_validation v) = 1"
    using overall_valid_conjunction [of sample_isalpha "[]" sample_extraction] b l g
    unfolding Let_def x sample_text_ratio by auto
  have "min_greek_ratio \<le>
         of_nat (length (filter (\<lambda>c. sample_isalpha c \<and> is_greek c) (replicate 50 945)))
           / of_nat (length (filter sample_isalpha (replicate 50 945)))"
    using g by (simp add: sample_isalpha_def is_greek_def)
  then show ?thesis
    using v a o q b l unfolding x by blast
qed

text \<open>
  The claim as first stated fails: with fifty Greek letters for a text and an empty
  author name in the reference, both thresholds are met and the flag is false.
\<close>

theorem overall_valid_counterexample:
  "validate_extraction sample_isalpha [] nameless_extraction \<noteq> Inl ZeroDivisionError
   \<and> \<not> overall_valid (projr (validate_extraction sample_isalpha [] nameless_extraction))
   \<and> min_text_length \<le> length (raw_text (text_structure nameless_extraction))
   \<and> min_greek_ratio
       \<le> of_nat (length (filter (\<lambda>c. sample_isalpha c \<and> is_greek c)
                     (raw_text (text_structure nameless_extraction))))
            / of_nat (length (filter sample_isalpha (raw_text (text_structure nameless_extraction))))
   \<and> min_greek_ratio
       \<le> greek_ratio (text_validation (projr (validate_extraction sample_isalpha [] nameless_extraction)))"
proof -
  have r: "\<not> valid_ref (validate_reference_completeness (tlg_reference nameless_extraction))"
    by (simp add: valid_ref_iff nameless_extraction_def sample_reference_def blank_def)
  have x: "raw_text (text_structure nameless_extraction) = replicate 50 945"
    by (simp add: nameless_extraction_def)
  have q: "min_greek_ratio
       \<le> of_nat (length (filter (\<lambda>c. sample_isalpha c \<and> is_greek c) (replicate 50 945)))
            / of_nat (length (filter sample_isalpha (replicate 50 945)))"
    by (simp add: sample_isalpha_def is_greek_def min_greek_ratio_def)
  have rest: "validate_extraction sample_isalpha [] nameless_extraction \<noteq> Inl ZeroDivisionError
   \<and> \<not> overall_valid (projr (validate_extraction sample_isalpha [] nameless_extraction))
   \<and> min_text_length \<le> length (raw_text (text_structure nameless_extraction))
   \<and> min_greek_ratio
       \<le> greek_ratio (text_validation (projr (validate_extraction sample_isalpha [] nameless_extraction)))"
    using r
    by (simp add: validate_extraction_def nameless_extraction_def sample_text_validation Let_def
        min_text_length_def min_greek_ratio_def)
  show ?thesis
    using rest q unfolding x by blast
qed

section \<open>Normalising the author index\<close>










section \<open>The coverage report\<close>

lemma keys_dict_set: "fst ` set (dict_set d k v) = insert k (fst ` set d)"
  unfolding dict_set_def by (induction d) auto

lemma keys_collect_work:
  "fst ` set (collect_work lower repr nl aid ameta acc (wid, wm)) =
     (if passes lower repr nl wm then insert (aid, wid) (fst ` set acc) else fst ` set acc)"
  by (cases nl) (simp_all add: collect_work_def passes_def Let_def keys_dict_set)

lemma keys_foldl_collect_work:
  "fst ` set (foldl (collect_work lower repr nl aid ameta) acc ws) =
     fst ` set acc \<union> {(aid, wid) | wid wm. (wid, wm) \<in> set ws \<and> passes lower repr nl wm}"
proof (induction ws arbitrary: acc)
  case Nil
  then show ?case by simp
next
  case (Cons item ws)
  obtain wid wm where i: "item = (wid, wm)" by (cases item)
  show ?case
    unfolding i foldl_Cons Cons.IH keys_collect_work by auto
qed

lemma keys_collect_author:
  "fst ` set (collect_author lower repr nl acc (aid, ameta)) =
     fst ` set acc \<union>
     {(aid, wid) | wid wm ws. works_item ameta = Some ws \<and> (wid, wm) \<in> set ws \<and> passes lower repr nl wm}"
  by (cases "works_item ameta") (auto simp: collect_author_def keys_foldl_collect_work)

lemma keys_foldl_collect_author:
  "fst ` set (foldl (collect_author lower repr nl) acc cat) =
     fst ` set acc \<union>
     {(aid, wid) | aid wid ameta wm ws.
        (aid, ameta) \<in> set cat \<and> works_item ameta = Some ws \<and> (wid, wm) \<in> set ws \<and>
        passes lower repr nl wm}"
proof (induction cat arbitrary: acc)
  case Nil
  then show ?case by simp
next
  case (Cons item cat)
  obtain aid ameta where i: "item = (aid, ameta)" by (cases item)
  show ?case
    unfolding i foldl_Cons Cons.IH keys_collect_author by auto
qed

lemma keys_collect_works:
  "fst ` set (collect_works lower repr cat languages) =
     {(aid, wid) | aid wid ameta wm ws.
        (aid, ameta) \<in> set cat \<and> works_item ameta = Some ws \<and> (wid, wm) \<in> set ws \<and>
        passes lower repr (norm_languages lower languages) wm}"
  by (simp add: collect_works_def keys_foldl_collect_author)

text \<open>
  So the keys \<^verbatim>\<open>_collect_works\<close> returns are the pairs of an author of the catalogue and
  one of that author's works that passes the language filter.
\<close>

lemma set_dict_set: "set (dict_set d k v) \<subseteq> insert (k, v) (set d)"
  unfolding dict_set_def by (induction d) auto

lemma wf_dict_set:
  "wf_works acc \<Longrightarrow> wf_works (dict_set acc key (combined_row key n t))"
  unfolding wf_works_def using set_dict_set by fastforce

lemma wf_collect_work:
  "wf_works acc \<Longrightarrow> wf_works (collect_work lower repr nl aid ameta acc item)"
proof -
  assume a: "wf_works acc"
  obtain wid wm where i: "item = (wid, wm)" by (cases item)
  show ?thesis
    using a wf_dict_set [OF a, of "(aid, wid)"]
    by (simp add: collect_work_def i Let_def combined_row_def)
qed

lemma wf_foldl_collect_work:
  "wf_works acc \<Longrightarrow> wf_works (foldl (collect_work lower repr nl aid ameta) acc ws)"
  by (induction ws arbitrary: acc) (simp_all add: wf_collect_work)

lemma wf_collect_author:
  "wf_works acc \<Longrightarrow> wf_works (collect_author lower repr nl acc item)"
  by (cases item) (simp add: collect_author_def wf_foldl_collect_work)

lemma wf_foldl_collect_author:
  "wf_works acc \<Longrightarrow> wf_works (foldl (collect_author lower repr nl) acc cat)"
  by (induction cat arbitrary: acc) (simp_all add: wf_collect_author)

lemma wf_collect_works: "wf_works (collect_works lower repr cat languages)"
  unfolding collect_works_def by (rule wf_foldl_collect_author) (simp add: wf_works_def)

lemma dict_has_keys: "dict_has d k \<longleftrightarrow> k \<in> fst ` set d"
  by (simp add: dict_has_def map_of_eq_None_iff)

lemma wf_dict_get:
  assumes "wf_works ws" "k \<in> fst ` set ws"
  shows "\<exists>n t. dict_get ws k [] = combined_row k n t"
proof -
  obtain d where d: "map_of ws k = Some d"
    using assms(2) by (metis map_of_eq_None_iff not_Some_eq)
  then have "(k, d) \<in> set ws" by (rule map_of_SomeD)
  then obtain n t where "d = combined_row k n t"
    using assms(1) unfolding wf_works_def by blast
  then show ?thesis using d by (auto simp: dict_get_def)
qed

lemma names_distinct:
  "py ''author_id'' \<noteq> py ''work_id''" "py ''author_id'' \<noteq> py ''author_name''"
  "py ''author_id'' \<noteq> py ''work_title''" "py ''work_id'' \<noteq> py ''author_name''"
  "py ''work_id'' \<noteq> py ''work_title''" "py ''author_name'' \<noteq> py ''work_title''"
  by (simp_all add: py_def)

lemma merge_combined:
  "dict_merge (combined_row k n t) (combined_row k n' t') = combined_row k n' t'"
  using names_distinct
  by (simp add: dict_merge_def combined_row_def dict_set_def)

lemma row_of_combined:
  "(case dict_subscript (combined_row k n t) (py ''author_id'') of Inl e \<Rightarrow> Inl e | Inr c1 \<Rightarrow>
      case dict_subscript (combined_row k n t) (py ''work_id'') of Inl e \<Rightarrow> Inl e | Inr c2 \<Rightarrow>
      case dict_subscript (combined_row k n t) (py ''author_name'') of Inl e \<Rightarrow> Inl e | Inr c3 \<Rightarrow>
      case dict_subscript (combined_row k n t) (py ''work_title'') of Inl e \<Rightarrow> Inl e | Inr c4 \<Rightarrow>
      Inr [c1, c2, c3, c4, JStr label]) = Inr [JStr (fst k), JStr (snd k), n, t, JStr label]"
  using names_distinct
  by (simp add: dict_subscript_def combined_row_def)

lemma coverage_row_ok:
  assumes "wf_works L" "wf_works T" "key \<in> fst ` set L \<union> fst ` set T"
  shows "\<exists>n t. coverage_row L T key =
           Inr [JStr (fst key), JStr (snd key), n, t, JStr (coverage_label L T key)]"
proof -
  consider (both) "key \<in> fst ` set L" "key \<in> fst ` set T"
    | (tlg) "key \<notin> fst ` set L" "key \<in> fst ` set T"
    | (leg) "key \<in> fst ` set L" "key \<notin> fst ` set T"
    using assms(3) by blast
  then show ?thesis
  proof cases
    case both
    obtain n t where l: "dict_get L key [] = combined_row key n t"
      using wf_dict_get [OF assms(1) both(1)] by blast
    obtain n' t' where t: "dict_get T key [] = combined_row key n' t'"
      using wf_dict_get [OF assms(2) both(2)] by blast
    show ?thesis
      using both
      by (simp add: coverage_row_def dict_has_keys l t merge_combined row_of_combined
          coverage_label_def)
  next
    case tlg
    obtain n' t' where t: "dict_get T key [] = combined_row key n' t'"
      using wf_dict_get [OF assms(2) tlg(2)] by blast
    show ?thesis
      using tlg
      by (simp add: coverage_row_def dict_has_keys t row_of_combined coverage_label_def)
  next
    case leg
    obtain n t where l: "dict_get L key [] = combined_row key n t"
      using wf_dict_get [OF assms(1) leg(1)] by blast
    show ?thesis
      using leg
      by (simp add: coverage_row_def dict_has_keys l row_of_combined coverage_label_def)
  qed
qed

lemma write_rows_ok:
  assumes "wf_works L" "wf_works T" "set keys \<subseteq> fst ` set L \<union> fst ` set T"
  shows "\<exists>rows. write_rows L T keys = Inr rows \<and>
           list_all2 (\<lambda>key row. \<exists>n t. row =
              [JStr (fst key), JStr (snd key), n, t, JStr (coverage_label L T key)]) keys rows"
  using assms(3)
proof (induction keys)
  case Nil
  then show ?case by simp
next
  case (Cons key keys)
  obtain n t where r: "coverage_row L T key =
           Inr [JStr (fst key), JStr (snd key), n, t, JStr (coverage_label L T key)]"
    using coverage_row_ok [OF assms(1,2), of key] Cons.prems by auto
  obtain rows where rs: "write_rows L T keys = Inr rows"
    "list_all2 (\<lambda>key row. \<exists>n t. row =
              [JStr (fst key), JStr (snd key), n, t, JStr (coverage_label L T key)]) keys rows"
    using Cons by auto
  show ?case using r rs by simp
qed

text \<open>
  Claim C4. \<^verbatim>\<open>generate_coverage_csv\<close> always returns; after the header it writes one
  row for each key of the union of the two language-filtered key sets, in sorted order,
  so the number of data rows is the size of the union. The row of a key starts with
  the author ID and the work ID of the key and ends with \<^verbatim>\<open>bot\<close> when the key is in both
  catalogues, \<^verbatim>\<open>tlg\<close> when it is in the TLG catalogue only and \<^verbatim>\<open>leg\<close> when it is in the
  legacy catalogue only.
\<close>

theorem coverage_rows:
  "let legacy_works = collect_works lower repr legacy_catalog (norm_languages lower languages);
       tlg_works = collect_works lower repr tlg_catalog (norm_languages lower languages);
       all_keys = fst ` set legacy_works \<union> fst ` set tlg_works
   in \<exists>rows.
        generate_coverage_csv lower repr legacy_catalog tlg_catalog languages = Inr (csv_header # rows)
        \<and> length rows = card all_keys
        \<and> list_all2
            (\<lambda>key row. \<exists>name_col title_col.
               row = [ JStr (fst key), JStr (snd key), name_col, title_col,
                       JStr (if key \<in> fst ` set legacy_works \<and> key \<in> fst ` set tlg_works
                               then py ''bot''
                             else if key \<in> fst ` set tlg_works then py ''tlg''
                             else py ''leg'') ])
            (sorted_list_of_set all_keys) rows"
proof -
  let ?L = "collect_works lower repr legacy_catalog (norm_languages lower languages)"
  let ?T = "collect_works lower repr tlg_catalog (norm_languages lower languages)"
  let ?K = "fst ` set ?L \<union> fst ` set ?T"
  have fin: "finite ?K" by simp
  have keys: "set (sorted_list_of_set ?K) \<subseteq> fst ` set ?L \<union> fst ` set ?T"
    using fin by simp
  obtain rows where w: "write_rows ?L ?T (sorted_list_of_set ?K) = Inr rows"
    and r: "list_all2 (\<lambda>key row. \<exists>n t. row =
              [JStr (fst key), JStr (snd key), n, t, JStr (coverage_label ?L ?T key)])
              (sorted_list_of_set ?K) rows"
    using write_rows_ok [OF wf_collect_works wf_collect_works keys] by blast
  have g: "generate_coverage_csv lower repr legacy_catalog tlg_catalog languages
             = Inr (csv_header # rows)"
    using w by (simp add: generate_coverage_csv_def Let_def)
  have len: "length rows = card ?K"
    using list_all2_lengthD [OF r] fin by simp
  show ?thesis
    unfolding Let_def using g len r unfolding coverage_label_def by blast
qed

lemma sample_rows:
  "generate_coverage_csv id (\<lambda>v. []) sample_legacy sample_tlg (Some [py ''grc'']) =
     Inr [ csv_header,
           [JStr (py ''0003''), JStr (py ''001''), JStr [], JStr [], JStr (py ''tlg'')],
           [JStr (py ''0012''), JStr (py ''001''), JStr (py ''HOMERUS''), JStr (py ''Work 001''), JStr (py ''bot'')],
           [JStr (py ''0012''), JStr (py ''002''), JStr (py ''Homer''), JStr (py ''Odyssey''), JStr (py ''leg'')] ]"
  by code_simp

theorem coverage_rows_witness:
  "generate_coverage_csv id (\<lambda>v. []) sample_legacy sample_tlg (Some [py ''grc'']) =
     Inr [ csv_header,
           [JStr (py ''0003''), JStr (py ''001''), JStr [], JStr [], JStr (py ''tlg'')],
           [JStr (py ''0012''), JStr (py ''001''), JStr (py ''HOMERUS''), JStr (py ''Work 001''), JStr (py ''bot'')],
           [JStr (py ''0012''), JStr (py ''002''), JStr (py ''Homer''), JStr (py ''Odyssey''), JStr (py ''leg'')] ]
   \<and> card (fst ` set (collect_works id (\<lambda>v. []) sample_legacy (norm_languages id (Some [py ''grc''])))
           \<union> fst ` set (collect_works id (\<lambda>v. []) sample_tlg (norm_languages id (Some [py ''grc''])))) = 3"
proof -
  let ?K = "fst ` set (collect_works id (\<lambda>v. []) sample_legacy (norm_languages id (Some [py ''grc''])))
           \<union> fst ` set (collect_works id (\<lambda>v. []) sample_tlg (norm_languages id (Some [py ''grc''])))"
  obtain rows where g: "generate_coverage_csv id (\<lambda>v. []) sample_legacy sample_tlg (Some [py ''grc''])
                          = Inr (csv_header # rows)"
    and l: "length rows = card ?K"
    using coverage_rows [where lower = id and repr = "\<lambda>v. []" and legacy_catalog = sample_legacy
        and tlg_catalog = sample_tlg and languages = "Some [py ''grc'']"]
    unfolding Let_def by blast
  have "length rows = 3"
    using g by (auto simp: sample_rows)
  then show ?thesis
    using l by (simp add: sample_rows)
qed

section \<open>Fetching a page\<close>









section \<open>Discovering the works of an author\<close>

lemma try_urls_shape:
  "try_urls fetch w us = (r, tried, w') \<Longrightarrow>
     tried = take (length tried) us
     \<and> (us \<noteq> [] \<longrightarrow> tried \<noteq> [])
     \<and> (r = None \<longrightarrow> tried = us)
     \<and> (r = None \<longleftrightarrow> \<not> list_ex substantial (responses fetch w us))
     \<and> (\<forall>u c. r = Some (u, c) \<longrightarrow> Some c \<in> set (responses fetch w us) \<and> length c > 1000)"
proof (induction us arbitrary: w r tried w')
  case Nil
  then show ?case by simp
next
  case (Cons u us)
  obtain content w1 where f: "fetch w u = (content, w1)" by (cases "fetch w u")
  show ?case
  proof (cases "substantial content")
    case True
    then obtain c where c: "content = Some c" "length c > 1000"
      by (auto simp: substantial_def split: option.splits)
    show ?thesis using Cons.prems f True c by auto
  next
    case False
    obtain r2 tried2 w2 where t: "try_urls fetch w1 us = (r2, tried2, w2)"
      by (cases "try_urls fetch w1 us")
    note ih = Cons.IH [OF t]
    have "r = r2" "tried = u # tried2"
      using Cons.prems f False t by simp_all
    then show ?thesis using ih f False by auto
  qed
qed

lemma trailing_misses_snoc:
  "trailing_misses (rs @ [(i, tried, found)]) = (if found then 0 else Suc (trailing_misses rs))"
  by (simp add: trailing_misses_def)

lemma discover_step_shape:
  assumes "discover_step fetch mk base tlg_id st wid = (st', stop)"
  shows "\<exists>tried found.
           rounds st' = rounds st @ [(wid, tried, found)]
           \<and> tried \<noteq> []
           \<and> tried = take (length tried) (urls_to_try base tlg_id (fmt03d wid))
           \<and> (\<not> found \<longrightarrow> tried = urls_to_try base tlg_id (fmt03d wid))
           \<and> (found \<longleftrightarrow> list_ex substantial
                 (responses fetch (world st) (urls_to_try base tlg_id (fmt03d wid))))
           \<and> consecutive_misses st' = (if found then 0 else Suc (consecutive_misses st))
           \<and> length (works st') = (if found then Suc (length (works st)) else length (works st))
           \<and> (\<not> found \<longrightarrow> works st' = works st)
           \<and> (stop \<longleftrightarrow> \<not> found \<and> Suc (consecutive_misses st) \<ge> max_consecutive_misses)"
proof -
  let ?us = "urls_to_try base tlg_id (fmt03d wid)"
  obtain r tried w1 where t: "try_urls fetch (world st) ?us = (r, tried, w1)"
    by (cases "try_urls fetch (world st) ?us")
  note sh = try_urls_shape [OF t]
  have ne: "?us \<noteq> []" by (simp add: urls_to_try_def)
  show ?thesis
  proof (cases r)
    case None
    then have "st' = st \<lparr> consecutive_misses := consecutive_misses st + 1,
                 rounds := rounds st @ [(wid, tried, False)], world := w1 \<rparr>"
      and "stop \<longleftrightarrow> consecutive_misses st + 1 \<ge> max_consecutive_misses"
      using assms t by (simp_all add: discover_step_def Let_def)
    then show ?thesis using sh ne None by auto
  next
    case (Some p)
    obtain u c where p: "p = (u, c)" by (cases p)
    have "st' = st \<lparr> works := works st @ [mk (fmt03d wid) u (length c)],
                consecutive_misses := 0,
                rounds := rounds st @ [(wid, tried, True)], world := w1 \<rparr>" and "\<not> stop"
      using assms t Some p by (simp_all add: discover_step_def Let_def)
    then show ?thesis using sh ne Some by auto
  qed
qed

lemma substantial_long: "substantial c \<longleftrightarrow> (\<exists>s. c = Some s \<and> length s > 1000)"
  by (cases c) (auto simp: substantial_def)

text \<open>
  Claim C2. In one round of the discovery loop (either script), if every answer to the
  candidate's URLs is \<open>None\<close> or a page of length at most 1000, no work is recorded and
  \<^verbatim>\<open>consecutive_misses\<close> grows by one. The counter is zero after a round only if an
  answer was longer than 1000 (and then one work was recorded); otherwise it is the old
  value plus one.
\<close>

theorem short_pages_are_misses:
  "case discover_step fetch mk base tlg_id st wid of (st', stop) \<Rightarrow>
     let rs = responses fetch (world st) (urls_to_try base tlg_id (fmt03d wid)) in
       ((\<forall>c \<in> set rs. c = None \<or> (\<exists>s. c = Some s \<and> length s \<le> 1000)) \<longrightarrow>
          works st' = works st \<and> consecutive_misses st' = consecutive_misses st + 1)
     \<and> (consecutive_misses st' = 0 \<longrightarrow>
          (\<exists>s. Some s \<in> set rs \<and> length s > 1000) \<and> length (works st') = length (works st) + 1)
     \<and> (consecutive_misses st' = 0 \<or> consecutive_misses st' = consecutive_misses st + 1)"
proof -
  let ?rs = "responses fetch (world st) (urls_to_try base tlg_id (fmt03d wid))"
  obtain st' stop where e: "discover_step fetch mk base tlg_id st wid = (st', stop)"
    by (cases "discover_step fetch mk base tlg_id st wid")
  obtain tried found where
    f: "found \<longleftrightarrow> list_ex substantial ?rs"
    and m: "consecutive_misses st' = (if found then 0 else Suc (consecutive_misses st))"
    and l: "length (works st') = (if found then Suc (length (works st)) else length (works st))"
    and k: "\<not> found \<longrightarrow> works st' = works st"
    using discover_step_shape [OF e] by blast
  have fx: "found \<longleftrightarrow> (\<exists>s. Some s \<in> set ?rs \<and> length s > 1000)"
    unfolding f list_ex_iff substantial_long by blast
  have short: "works st' = works st \<and> consecutive_misses st' = consecutive_misses st + 1"
    if h: "\<forall>c \<in> set ?rs. c = None \<or> (\<exists>s. c = Some s \<and> length s \<le> 1000)"
  proof -
    have "\<not> found"
    proof
      assume found
      then obtain s where s: "Some s \<in> set ?rs" "length s > 1000" using fx by blast
      then have "length s \<le> 1000" using h by fastforce
      then show False using s(2) by simp
    qed
    then show ?thesis using m k by simp
  qed
  have zero: "(\<exists>s. Some s \<in> set ?rs \<and> length s > 1000) \<and> length (works st') = length (works st) + 1"
    if z: "consecutive_misses st' = 0"
  proof -
    have found using m z by (simp split: if_splits)
    then show ?thesis using fx l by simp
  qed
  have either: "consecutive_misses st' = 0 \<or> consecutive_misses st' = consecutive_misses st + 1"
    using m by simp
  show ?thesis
    unfolding e prod.case Let_def
    using short zero either by blast
qed

theorem short_pages_are_misses_witness:
  "list_all (\<lambda>c. c = None \<or> (\<exists>s. c = Some s \<and> length s \<le> 1000))
     (responses tiny_server (world (initial 0 :: (pystr, nat) discovery))
        (urls_to_try (py ''http://h'') (py ''0012'') (fmt03d 1)))
   \<and> works (fst (discover_step tiny_server (\<lambda>wid u n. wid) (py ''http://h'') (py ''0012'') (initial 0) 1)) = []
   \<and> consecutive_misses
        (fst (discover_step tiny_server (\<lambda>wid u n. wid) (py ''http://h'') (py ''0012'') (initial 0) 1)) = 1
   \<and> consecutive_misses
        (fst (discover_step sparse_server (\<lambda>wid u n. wid) (py ''http://h'') (py ''0012'') (initial 0) 1)) = 0
   \<and> length (works
        (fst (discover_step sparse_server (\<lambda>wid u n. wid) (py ''http://h'') (py ''0012'') (initial 0) 1))) = 1"
proof -
  let ?init = "initial 0 :: (pystr, nat) discovery"
  let ?us = "urls_to_try (py ''http://h'') (py ''0012'') (fmt03d 1)"
  let ?mk = "\<lambda>(wid :: pystr) (u :: pystr) (n :: nat). wid"
  have i: "world ?init = 0" "works ?init = []" "consecutive_misses ?init = 0"
    by (simp_all add: initial_def)
  have h: "\<forall>c \<in> set (responses tiny_server (world ?init) ?us).
             c = None \<or> (\<exists>s. c = Some s \<and> length s \<le> 1000)"
    by (simp add: i urls_to_try_def tiny_server_def py_def)
  obtain st1 stop1 where e1:
    "discover_step tiny_server ?mk (py ''http://h'') (py ''0012'') ?init 1 = (st1, stop1)"
    by (cases "discover_step tiny_server ?mk (py ''http://h'') (py ''0012'') ?init 1")
  have t1: "works st1 = [] \<and> consecutive_misses st1 = 1"
    using short_pages_are_misses [where fetch = tiny_server and mk = ?mk and base = "py ''http://h''"
        and tlg_id = "py ''0012''" and st = ?init and wid = 1] h
    unfolding e1 prod.case Let_def i by simp
  obtain st2 stop2 where e2:
    "discover_step sparse_server ?mk (py ''http://h'') (py ''0012'') ?init 1 = (st2, stop2)"
    by (cases "discover_step sparse_server ?mk (py ''http://h'') (py ''0012'') ?init 1")
  have z: "consecutive_misses st2 = 0"
    using e2
    by (auto simp: discover_step_def i urls_to_try_def sparse_server_def substantial_def Let_def)
  have t2: "length (works st2) = 1"
    using short_pages_are_misses [where fetch = sparse_server and mk = ?mk and base = "py ''http://h''"
        and tlg_id = "py ''0012''" and st = ?init and wid = 1] z
    unfolding e2 prod.case Let_def i by simp
  show ?thesis
    using h t1 z t2 unfolding e1 e2 list_all_iff by simp
qed

lemma discover_loop_rounds:
  assumes "consecutive_misses st = trailing_misses (rounds st)"
    and "trailing_misses (rounds st) < max_consecutive_misses"
  shows "\<exists>new. rounds (discover_loop fetch mk base tlg_id st wids) = rounds st @ new
      \<and> map fst new = take (length new) wids
      \<and> list_all (round_ok base tlg_id) new
      \<and> (\<forall>n. length (rounds st) \<le> n \<and> n < length (rounds st @ new) \<longrightarrow>
            trailing_misses (take n (rounds st @ new)) < max_consecutive_misses)
      \<and> (length new = length wids \<or> trailing_misses (rounds st @ new) = max_consecutive_misses)"
  using assms
proof (induction wids arbitrary: st)
  case Nil
  then show ?case by simp
next
  case (Cons wid wids)
  obtain st' stop where e: "discover_step fetch mk base tlg_id st wid = (st', stop)"
    by (cases "discover_step fetch mk base tlg_id st wid")
  obtain tried found where
    r: "rounds st' = rounds st @ [(wid, tried, found)]"
    and ok: "round_ok base tlg_id (wid, tried, found)"
    and m: "consecutive_misses st' = (if found then 0 else Suc (consecutive_misses st))"
    and s: "stop \<longleftrightarrow> \<not> found \<and> Suc (consecutive_misses st) \<ge> max_consecutive_misses"
    using discover_step_shape [OF e] unfolding round_ok_def by auto
  let ?x = "(wid, tried, found)"
  have tm: "trailing_misses (rounds st') = consecutive_misses st'"
    unfolding r trailing_misses_snoc m using Cons.prems(1) by simp
  have old: "n = length (rounds st) \<Longrightarrow>
      trailing_misses (take n (rounds st @ ?x # more)) < max_consecutive_misses" for n more
    using Cons.prems(2) by simp
  show ?case
  proof (cases stop)
    case True
    then have res: "discover_loop fetch mk base tlg_id st (wid # wids) = st'"
      using e by simp
    have "trailing_misses (rounds st') = max_consecutive_misses"
      using True s m tm Cons.prems by simp
    then show ?thesis
      unfolding res r using ok old by (intro exI [of _ "[?x]"]) auto
  next
    case False
    then have res: "discover_loop fetch mk base tlg_id st (wid # wids)
                      = discover_loop fetch mk base tlg_id st' wids"
      using e by simp
    have lt: "trailing_misses (rounds st') < max_consecutive_misses"
      using False s m tm Cons.prems by (auto split: if_splits)
    obtain new where n:
      "rounds (discover_loop fetch mk base tlg_id st' wids) = rounds st' @ new"
      "map fst new = take (length new) wids"
      "list_all (round_ok base tlg_id) new"
      "\<forall>n. length (rounds st') \<le> n \<and> n < length (rounds st' @ new) \<longrightarrow>
            trailing_misses (take n (rounds st' @ new)) < max_consecutive_misses"
      "length new = length wids \<or> trailing_misses (rounds st' @ new) = max_consecutive_misses"
      using Cons.IH [OF tm [symmetric] lt] by blast
    have a: "rounds st' @ new = rounds st @ ?x # new"
      unfolding r by simp
    have q: "\<forall>n. length (rounds st) \<le> n \<and> n < length (rounds st @ ?x # new) \<longrightarrow>
            trailing_misses (take n (rounds st @ ?x # new)) < max_consecutive_misses"
    proof (intro allI impI)
      fix n assume b: "length (rounds st) \<le> n \<and> n < length (rounds st @ ?x # new)"
      show "trailing_misses (take n (rounds st @ ?x # new)) < max_consecutive_misses"
      proof (cases "n = length (rounds st)")
        case True
        then show ?thesis by (rule old)
      next
        case False
        then have "length (rounds st') \<le> n \<and> n < length (rounds st' @ new)"
          using b r by simp
        then show ?thesis using n(4) a by metis
      qed
    qed
    show ?thesis
      unfolding res n(1) a
      using n(2,3,5) ok q a by (intro exI [of _ "?x # new"]) auto
  qed
qed

lemma discover_loop_initial:
  assumes "wids = [1 ..< Suc limit]"
  shows "probes_in_order base tlg_id limit
     (rounds (discover_loop fetch mk base tlg_id (initial w) wids))"
proof -
  have i: "consecutive_misses (initial w :: ('a, 'b) discovery) = trailing_misses (rounds (initial w :: ('a, 'b) discovery))"
    "trailing_misses (rounds (initial w :: ('a, 'b) discovery)) < max_consecutive_misses"
    by (simp_all add: initial_def trailing_misses_def max_consecutive_misses_def)
  let ?rs = "rounds (discover_loop fetch mk base tlg_id (initial w) wids)"
  have r0: "rounds (initial w :: ('a, 'b) discovery) = []"
    by (simp add: initial_def)
  have lw: "length wids = limit"
    unfolding assms by (simp del: upt_Suc)
  obtain new where n: "?rs = new"
    "map fst new = take (length new) wids"
    "list_all (round_ok base tlg_id) new"
    "\<forall>n. n < length new \<longrightarrow> trailing_misses (take n new) < max_consecutive_misses"
    "length new = length wids \<or> trailing_misses new = max_consecutive_misses"
    using discover_loop_rounds [OF i, of fetch mk base tlg_id wids]
    unfolding r0 by auto
  have "length (map fst new) = length (take (length new) wids)"
    using n(2) by simp
  then have le: "length new \<le> limit"
    unfolding lw [symmetric] by simp
  then have "take (length new) [1 ..< Suc limit] = [1 ..< 1 + length new]"
    by (intro take_upt) simp
  then have t: "map fst new = [1 ..< Suc (length new)]"
    using n(2) unfolding assms by (simp del: upt_Suc)
  show ?thesis
    unfolding probes_in_order_def n(1) using t n(3,4,5) le lw by blast
qed

text \<open>
  Claim C3. Both \<^verbatim>\<open>discover_author_works\<close> methods (the first with its default
  \<^verbatim>\<open>max_works\<close> of 999) return for every author ID and every server. The candidates
  probed are 1, 2, 3, \<dots> in this order, never one above 999; each round fetches the
  plain-underscore URL and then, unless that one was found, the \<^verbatim>\<open>%5F\<close> URL. No round
  before the last ends a run of 20 misses, and the loop ends at candidate 999 or with
  a run of exactly 20 misses.
\<close>

theorem discovery_terminates:
  "probes_in_order base tlg_id 999 (rounds (discover_author_works fetch base tlg_id 999 w))
   \<and> probes_in_order base tlg_id 999 (rounds (discover_author_works_integrated fetch base tlg_id w))"
proof
  have a: "[1 ..< 999 + 1] = [1 ..< Suc 999]"
    by (simp only: Suc_eq_plus1)
  show "probes_in_order base tlg_id 999 (rounds (discover_author_works fetch base tlg_id 999 w))"
    unfolding discover_author_works_def by (rule discover_loop_initial [OF a])
  have "(1000::nat) = Suc 999" by simp
  then have b: "[1 ..< 1000] = [1 ..< Suc 999]"
    by (simp only:)
  show "probes_in_order base tlg_id 999
      (rounds (discover_author_works_integrated fetch base tlg_id w))"
    unfolding discover_author_works_integrated_def by (rule discover_loop_initial [OF b])
qed

lemma sparse_rounds:
  "length (rounds (discover_author_works sparse_server (py ''http://h'') (py ''0012'') 999 0)) = 23"
  by code_simp

theorem discovery_terminates_witness:
  "length (rounds (discover_author_works sparse_server (py ''http://h'') (py ''0012'') 999 0)) = 23
   \<and> map fst (rounds (discover_author_works sparse_server (py ''http://h'') (py ''0012'') 999 0))
       = [1 ..< 24]
   \<and> trailing_misses (rounds (discover_author_works sparse_server (py ''http://h'') (py ''0012'') 999 0))
       = 20"
proof -
  let ?rs = "rounds (discover_author_works sparse_server (py ''http://h'') (py ''0012'') 999 0)"
  have p: "probes_in_order (py ''http://h'') (py ''0012'') 999 ?rs"
    using discovery_terminates [where base = "py ''http://h''" and tlg_id = "py ''0012''"
        and fetch = sparse_server and w = 0] by blast
  have m: "map fst ?rs = [1 ..< Suc (length ?rs)]"
    and d: "length ?rs = 999 \<or> trailing_misses ?rs = max_consecutive_misses"
    using p unfolding probes_in_order_def by blast+
  have "map fst ?rs = [1 ..< Suc 23]"
    using m unfolding sparse_rounds .
  moreover have "(24::nat) = Suc 23" by simp
  ultimately have m': "map fst ?rs = [1 ..< 24]" by (simp only:)
  have "trailing_misses ?rs = 20"
    using d unfolding sparse_rounds max_consecutive_misses_def by simp
  then show ?thesis using m' sparse_rounds by blast
qed

end
